theory Spec2Isabelle
  imports Main "HOL-Library.Word"
begin

section \<open>HRRR model viewer: the client helpers of App.tsx and the proxy relay\<close>

text \<open>
  Conventions of the embedding.
  \<^item> A JavaScript string is a \<open>string\<close>, a list of 8-bit characters. The strings of the
    program (model and area names, parameter keys, digits, URLs) are ASCII, where
    \<open>length\<close> counts as JavaScript does and \<open>toLowerCase\<close> moves exactly the letters
    A to Z; text outside ASCII is outside the model.
  \<^item> The numbers of the program (cycle hour, forecast hour, list indices, timer handles)
    are whole numbers: \<open>int\<close>, or \<open>nat\<close> for handles and status codes. \<open>indexOf\<close>
    returns \<open>-1\<close> for an absent element, as in JavaScript.
  \<^item> An optional argument or an optional query parameter is an \<open>option\<close>; a read that
    JavaScript answers with \<open>undefined\<close> is \<open>None\<close>; a rejected promise is the \<open>Inl\<close>
    of a sum, carrying the string of the error.
\<close>

subsection \<open>The string primitives the code calls\<close>

text \<open>\<open>String(n)\<close> for an integer \<open>n\<close>: decimal digits, a leading minus sign when negative.\<close>

definition digit_char :: "nat \<Rightarrow> char" where
  "digit_char d = char_of (48 + d)"

fun digits :: "nat \<Rightarrow> string" where
  "digits n = (if n < 10 then [digit_char n] else digits (n div 10) @ [digit_char (n mod 10)])"

declare digits.simps [simp del]

definition String_of :: "int \<Rightarrow> string" where
  "String_of n = (if n < 0 then CHR ''-'' # digits (nat (- n)) else digits (nat n))"

text \<open>
  \<open>s.padStart(targetLength, padString)\<close>: the string itself when it is already long
  enough (or the pad is empty), otherwise the pad repeated and cut to the missing length,
  in front of the string.
\<close>

definition padStart :: "nat \<Rightarrow> string \<Rightarrow> string \<Rightarrow> string" where
  "padStart targetLength padString s =
     (if targetLength \<le> length s \<or> padString = [] then s
      else take (targetLength - length s)
             (concat (replicate (targetLength - length s) padString)) @ s)"

text \<open>\<open>s.toLowerCase()\<close> on ASCII: the letters A to Z move to a to z, every other character stays.\<close>

definition lower_char :: "char \<Rightarrow> char" where
  "lower_char c =
     (if 65 \<le> (of_char c :: nat) \<and> (of_char c :: nat) \<le> 90
      then char_of ((of_char c :: nat) + 32) else c)"

definition toLowerCase :: "string \<Rightarrow> string" where
  "toLowerCase s = map lower_char s"

text \<open>\<open>xs.indexOf(x)\<close>: the first position of \<open>x\<close>, or \<open>-1\<close>.\<close>

fun indexOf_from :: "int \<Rightarrow> int list \<Rightarrow> int \<Rightarrow> int" where
  "indexOf_from k [] x = - 1"
| "indexOf_from k (y # ys) x = (if y = x then k else indexOf_from (k + 1) ys x)"

definition indexOf :: "int list \<Rightarrow> int \<Rightarrow> int" where
  "indexOf xs x = indexOf_from 0 xs x"

text \<open>\<open>xs[i]\<close> reads \<open>undefined\<close> outside the array; the model makes that \<open>None\<close>.\<close>

definition at_index :: "int list \<Rightarrow> int \<Rightarrow> int option" where
  "at_index xs i = (if 0 \<le> i \<and> i < int (length xs) then Some (xs ! nat i) else None)"

subsection \<open>Forecast hours of a cycle (App.tsx, helpers)\<close>

definition isExtendedCycle :: "int \<Rightarrow> bool" where
  "isExtendedCycle hour = (hour \<in> set [0, 6, 12, 18])"

text \<open>\<open>Array.from({ length: max + 1 }, (_, i) => i)\<close>\<close>

definition listHoursForCycle :: "int \<Rightarrow> int list" where
  "listHoursForCycle hour =
     (let max = (if isExtendedCycle hour then 48 else 18 :: nat)
      in map int [0 ..< max + 1])"

subsection \<open>Stepping the forecast hour (App.tsx, the state updaters passed to setFhr)\<close>

text \<open>The updater of the interval callback, with the cycle hour the effect closed over.\<close>

definition tick_update :: "int \<Rightarrow> int \<Rightarrow> int option" where
  "tick_update cycleHour prev =
     (let list = listHoursForCycle cycleHour;
          i = indexOf list prev
      in if i < 0 \<or> i = int (length list) - 1 then at_index list 0 else at_index list (i + 1))"

text \<open>The updater of the "Next hour" button.\<close>

definition next_update :: "int \<Rightarrow> int \<Rightarrow> int option" where
  "next_update cycleHour f =
     (let list = listHoursForCycle cycleHour;
          i = indexOf list f
      in if i < 0 \<or> i = int (length list) - 1 then at_index list 0 else at_index list (i + 1))"

text \<open>The updater of the "Prev hour" button: \<open>Math.max(0, f - 1)\<close>.\<close>

definition prev_update :: "int \<Rightarrow> int" where
  "prev_update f = max 0 (f - 1)"

subsection \<open>Building the image URLs (App.tsx)\<close>

definition AREA :: string where
  "AREA = ''conus''"

definition PROXY_BASE :: string where
  "PROXY_BASE = ''/.netlify/functions/mag''"

text \<open>
  The size suffix is a module constant, blank in the repository ("e.g. \<open>_l\<close> or \<open>_s\<close> if
  needed"). The builders below take the configured value as their first argument;
  \<open>MAG_SIZE_SUFFIX\<close> is the value the repository sets.
\<close>

definition MAG_SIZE_SUFFIX :: string where
  "MAG_SIZE_SUFFIX = ''''"

definition buildMagFilename :: "string \<Rightarrow> string \<Rightarrow> string \<Rightarrow> int \<Rightarrow> string \<Rightarrow> string" where
  "buildMagFilename sizeSuffix model area fhr param =
     (let fh = padStart 3 ''0'' (String_of fhr) @ ''00''
      in model @ ''_'' @ area @ ''_'' @ fh @ ''_'' @ param @ sizeSuffix @ ''.gif'')"

text \<open>The argument object of the two URL builders; \<open>model\<close> and \<open>area\<close> are optional.\<close>

record url_args =
  a_model :: "string option"
  a_area :: "string option"
  a_cycleHour :: int
  a_fhr :: int
  a_param :: string

definition buildMagDirectUrl :: "string \<Rightarrow> url_args \<Rightarrow> string" where
  "buildMagDirectUrl sizeSuffix args =
     (let model = (case a_model args of None \<Rightarrow> ''hrrr'' | Some m \<Rightarrow> m);
          area = (case a_area args of None \<Rightarrow> AREA | Some a \<Rightarrow> a);
          file = buildMagFilename sizeSuffix model area (a_fhr args) (a_param args);
          cyc = padStart 2 ''0'' (String_of (a_cycleHour args))
      in ''https://mag.ncep.noaa.gov/data/'' @ model @ cyc @ ''/'' @ file)"

subsection \<open>The proxy relay (the Netlify function): request parameters and remote URL\<close>

text \<open>
  The event carries the decoded query parameters, or none at all
  (\<open>event.queryStringParameters || {}\<close>).
\<close>

record event =
  queryStringParameters :: "(string \<rightharpoonup> string) option"

text \<open>\<open>v || d\<close> for an optional string: a missing and an empty string are both falsy.\<close>

definition or_default :: "string option \<Rightarrow> string \<Rightarrow> string" where
  "or_default v d = (case v of None \<Rightarrow> d | Some s \<Rightarrow> if s = [] then d else s)"

text \<open>The six local constants of the handler.\<close>

record relay_params =
  r_model :: string
  r_area :: string
  r_cycle :: string
  r_fhr :: string
  r_param :: string
  r_size :: string

definition handler_p :: "event \<Rightarrow> (string \<rightharpoonup> string)" where
  "handler_p ev = (case queryStringParameters ev of None \<Rightarrow> Map.empty | Some q \<Rightarrow> q)"

definition handler_params :: "event \<Rightarrow> relay_params" where
  "handler_params ev =
     (let p = handler_p ev
      in \<lparr>r_model = toLowerCase (or_default (p ''model'') ''hrrr''),
          r_area = toLowerCase (or_default (p ''area'') ''conus''),
          r_cycle = padStart 2 ''0'' (or_default (p ''cycle'') ''''),
          r_fhr = padStart 3 ''0'' (or_default (p ''fhr'') ''0''),
          r_param = toLowerCase (or_default (p ''param'') ''ceiling''),
          r_size = or_default (p ''size'') ''''\<rparr>)"

definition handler_remote :: "event \<Rightarrow> string" where
  "handler_remote ev =
     (let ps = handler_params ev;
          filename = r_model ps @ ''_'' @ r_area ps @ ''_'' @ r_fhr ps @ ''00_''
                       @ r_param ps @ r_size ps @ ''.gif''
      in ''https://mag.ncep.noaa.gov/data/'' @ r_model ps @ r_cycle ps @ ''/'' @ filename)"

subsection \<open>The proxy URL (App.tsx) and its query string\<close>

text \<open>
  \<open>new URLSearchParams(obj).toString()\<close> is the application/x-www-form-urlencoded
  serializer: the pairs in the order of the object's keys, \<open>name=value\<close> joined by
  \<open>&\<close>; in names and values a space becomes \<open>+\<close>, the letters, the digits and
  \<open>* - . _\<close> stay, and every other byte becomes \<open>%\<close> and two upper-case hex digits.
\<close>

definition urlencoded_safe :: "char \<Rightarrow> bool" where
  "urlencoded_safe c =
     (let n = (of_char c :: nat)
      in (48 \<le> n \<and> n \<le> 57) \<or> (65 \<le> n \<and> n \<le> 90) \<or> (97 \<le> n \<and> n \<le> 122)
         \<or> c \<in> set ''*-._'')"

definition hex_char :: "nat \<Rightarrow> char" where
  "hex_char d = (if d < 10 then char_of (48 + d) else char_of (55 + d))"

definition urlencode_byte :: "char \<Rightarrow> string" where
  "urlencode_byte c =
     (if c = CHR '' '' then ''+''
      else if urlencoded_safe c then [c]
      else [CHR ''%'', hex_char ((of_char c :: nat) div 16), hex_char ((of_char c :: nat) mod 16)])"

definition urlencode :: "string \<Rightarrow> string" where
  "urlencode s = concat (map urlencode_byte s)"

fun join_with :: "string \<Rightarrow> string list \<Rightarrow> string" where
  "join_with sep [] = []"
| "join_with sep [x] = x"
| "join_with sep (x # y # ys) = x @ sep @ join_with sep (y # ys)"

definition URLSearchParams_toString :: "(string \<times> string) list \<Rightarrow> string" where
  "URLSearchParams_toString qs =
     join_with ''&'' (map (\<lambda>(k, v). urlencode k @ ''='' @ urlencode v) qs)"

definition buildMagProxyUrl :: "url_args \<Rightarrow> string" where
  "buildMagProxyUrl args =
     (let model = (case a_model args of None \<Rightarrow> ''hrrr'' | Some m \<Rightarrow> m);
          area = (case a_area args of None \<Rightarrow> AREA | Some a \<Rightarrow> a);
          qs = [(''model'', model),
                (''area'', area),
                (''cycle'', padStart 2 ''0'' (String_of (a_cycleHour args))),
                (''fhr'', padStart 3 ''0'' (String_of (a_fhr args))),
                (''param'', a_param args)]
      in PROXY_BASE @ ''?'' @ URLSearchParams_toString qs)"

subsection \<open>From the requested URL to the relay's event\<close>

text \<open>
  The hosting platform, not the repository, turns the requested URL into
  \<open>event.queryStringParameters\<close>. It is modelled as the standard urlencoded parser on
  the part after the first \<open>?\<close>: split at \<open>&\<close>, drop empty pieces, split each piece at
  its first \<open>=\<close>, turn \<open>+\<close> into a space and decode \<open>%XX\<close>; a later pair with the same
  name wins, and a URL with no pair gives no parameter object.
\<close>

fun split_on :: "char \<Rightarrow> string \<Rightarrow> string list" where
  "split_on sep [] = [[]]"
| "split_on sep (x # xs) =
     (if x = sep then [] # split_on sep xs
      else (case split_on sep xs of [] \<Rightarrow> [[x]] | y # ys \<Rightarrow> (x # y) # ys))"

definition hex_val :: "char \<Rightarrow> nat option" where
  "hex_val c =
     (let n = (of_char c :: nat)
      in if 48 \<le> n \<and> n \<le> 57 then Some (n - 48)
         else if 65 \<le> n \<and> n \<le> 70 then Some (n - 55)
         else if 97 \<le> n \<and> n \<le> 102 then Some (n - 87)
         else None)"

fun percent_decode :: "string \<Rightarrow> string" where
  "percent_decode (c # h # l # rest) =
     (if c = CHR ''%'' then
        (case (hex_val h, hex_val l) of
           (Some a, Some b) \<Rightarrow> char_of (16 * a + b) # percent_decode rest
         | _ \<Rightarrow> c # percent_decode (h # l # rest))
      else c # percent_decode (h # l # rest))"
| "percent_decode [c, h] = c # percent_decode [h]"
| "percent_decode [c] = [c]"
| "percent_decode [] = []"

definition urldecode :: "string \<Rightarrow> string" where
  "urldecode s = percent_decode (map (\<lambda>c. if c = CHR ''+'' then CHR '' '' else c) s)"

definition parse_pair :: "string \<Rightarrow> string \<times> string" where
  "parse_pair piece =
     (urldecode (takeWhile (\<lambda>c. c \<noteq> CHR ''='') piece),
      urldecode (drop 1 (dropWhile (\<lambda>c. c \<noteq> CHR ''='') piece)))"

definition parse_query :: "string \<Rightarrow> (string \<times> string) list" where
  "parse_query s = map parse_pair (filter (\<lambda>piece. piece \<noteq> []) (split_on CHR ''&'' s))"

definition query_of_url :: "string \<Rightarrow> string" where
  "query_of_url url = drop 1 (dropWhile (\<lambda>c. c \<noteq> CHR ''?'') url)"

definition event_of_url :: "string \<Rightarrow> event" where
  "event_of_url url =
     (let qs = parse_query (query_of_url url)
      in \<lparr>queryStringParameters = (if qs = [] then None else Some (map_of (rev qs)))\<rparr>)"

subsection \<open>The proxy relay: fetching and answering\<close>

type_synonym byte = "8 word"

text \<open>
  \<open>buf.toString("base64")\<close>: three bytes become four characters of the alphabet
  \<open>A-Z a-z 0-9 + /\<close>, and a last group of one or two bytes is padded with \<open>=\<close>.
\<close>

definition b64_char :: "nat \<Rightarrow> char" where
  "b64_char i =
     (if i < 26 then char_of (65 + i)
      else if i < 52 then char_of (71 + i)
      else if i < 62 then char_of (i - 4)
      else if i = 62 then CHR ''+'' else CHR ''/'')"

fun base64 :: "byte list \<Rightarrow> string" where
  "base64 (a # b # c # rest) =
     [b64_char (unat a div 4),
      b64_char ((unat a mod 4) * 16 + unat b div 16),
      b64_char ((unat b mod 16) * 4 + unat c div 64),
      b64_char (unat c mod 64)] @ base64 rest"
| "base64 [a, b] =
     [b64_char (unat a div 4),
      b64_char ((unat a mod 4) * 16 + unat b div 16),
      b64_char ((unat b mod 16) * 4),
      CHR ''='']"
| "base64 [a] =
     [b64_char (unat a div 4), b64_char ((unat a mod 4) * 16), CHR ''='', CHR ''='']"
| "base64 [] = []"

text \<open>
  The receiver of a response flagged \<open>isBase64Encoded\<close> decodes the body; the decoder
  is the standard one, failing (\<open>None\<close>) on a malformed text.
\<close>

definition b64_val :: "char \<Rightarrow> nat option" where
  "b64_val c =
     (let n = (of_char c :: nat)
      in if 65 \<le> n \<and> n \<le> 90 then Some (n - 65)
         else if 97 \<le> n \<and> n \<le> 122 then Some (n - 71)
         else if 48 \<le> n \<and> n \<le> 57 then Some (n + 4)
         else if n = 43 then Some 62
         else if n = 47 then Some 63
         else None)"

fun base64_decode :: "string \<Rightarrow> byte list option" where
  "base64_decode [] = Some []"
| "base64_decode (w # x # y # z # rest) =
     (if rest = [] \<and> y = CHR ''='' \<and> z = CHR ''='' then
        (case (b64_val w, b64_val x) of
           (Some p, Some q) \<Rightarrow> Some [of_nat (p * 4 + q div 16)]
         | _ \<Rightarrow> None)
      else if rest = [] \<and> z = CHR ''='' then
        (case (b64_val w, b64_val x, b64_val y) of
           (Some p, Some q, Some r) \<Rightarrow>
             Some [of_nat (p * 4 + q div 16), of_nat ((q mod 16) * 16 + r div 4)]
         | _ \<Rightarrow> None)
      else
        (case (b64_val w, b64_val x, b64_val y, b64_val z) of
           (Some p, Some q, Some r, Some s) \<Rightarrow>
             map_option
               (\<lambda>bs. of_nat (p * 4 + q div 16) # of_nat ((q mod 16) * 16 + r div 4)
                      # of_nat ((r mod 4) * 64 + s) # bs)
               (base64_decode rest)
         | _ \<Rightarrow> None))"
| "base64_decode _ = None"

text \<open>
  What \<open>fetch\<close> gives the handler: a rejection, carrying the string of the error, or a
  response with its status and the results of reading it as text and as bytes, each of
  which may itself reject. \<open>resp.ok\<close> is true for a status from 200 to 299.
\<close>

record upstream_response =
  up_status :: nat
  up_text :: "string + string"
  up_arrayBuffer :: "string + byte list"

datatype fetch_result = Rejected string | Resolved upstream_response

definition up_ok :: "upstream_response \<Rightarrow> bool" where
  "up_ok resp = (200 \<le> up_status resp \<and> up_status resp \<le> 299)"

record response =
  statusCode :: nat
  headers :: "(string \<times> string) list option"
  body :: string
  isBase64Encoded :: "bool option"

definition fetch_headers :: "(string \<times> string) list" where
  "fetch_headers =
     [(''Referer'', ''https://mag.ncep.noaa.gov/''),
      (''User-Agent'', ''Mozilla/5.0 NetlifyFunction''),
      (''Accept'', ''image/avif,image/webp,image/apng,image/*,*/*;q=0.8'')]"

text \<open>The \<open>catch\<close> block.\<close>

definition caught :: "string \<Rightarrow> response" where
  "caught err = \<lparr>statusCode = 500, headers = None, body = err, isBase64Encoded = None\<rparr>"

definition handler :: "(string \<Rightarrow> (string \<times> string) list \<Rightarrow> fetch_result) \<Rightarrow> event \<Rightarrow> response" where
  "handler fetch ev =
     (let remote = handler_remote ev
      in case fetch remote fetch_headers of
           Rejected err \<Rightarrow> caught err
         | Resolved resp \<Rightarrow>
             if \<not> up_ok resp then
               (case up_text resp of
                  Inl err \<Rightarrow> caught err
                | Inr text \<Rightarrow>
                    \<lparr>statusCode = up_status resp, headers = None, body = text,
                     isBase64Encoded = None\<rparr>)
             else
               (case up_arrayBuffer resp of
                  Inl err \<Rightarrow> caught err
                | Inr ab \<Rightarrow>
                    \<lparr>statusCode = 200,
                     headers = Some [(''Content-Type'', ''image/gif''),
                                     (''Cache-Control'', ''public, max-age=300''),
                                     (''Access-Control-Allow-Origin'', ''*'')],
                     body = base64 ab,
                     isBase64Encoded = Some True\<rparr>))"

subsection \<open>Playback: the component state, the interval timers and the effect (App.tsx)\<close>

text \<open>
  The state of the component that matters for playback, together with what the browser
  and React hold for it: the intervals of \<open>window\<close> that are active (handle, delay and
  the cycle hour the callback closed over), the next handle \<open>setInterval\<close> will return
  (handles are positive and never reused), and whether the last run of the effect
  returned a cleanup function.
\<close>

record playback =
  p_cycleHour :: int
  p_fhr :: int
  p_playing :: bool
  p_speedMs :: int
  timerRef :: "nat option"
  intervals :: "(nat \<times> int \<times> int) list"
  next_handle :: nat
  has_cleanup :: bool
  mounted :: bool

definition setInterval :: "int \<Rightarrow> int \<Rightarrow> playback \<Rightarrow> nat \<times> playback" where
  "setInterval closed_cycleHour delay s =
     (next_handle s,
      s\<lparr>intervals := intervals s @ [(next_handle s, delay, closed_cycleHour)],
        next_handle := Suc (next_handle s)\<rparr>)"

definition clearInterval :: "nat \<Rightarrow> playback \<Rightarrow> playback" where
  "clearInterval h s = s\<lparr>intervals := filter (\<lambda>t. fst t \<noteq> h) (intervals s)\<rparr>"

text \<open>
  The body of \<open>useEffect\<close>: nothing when not playing (and then no cleanup function),
  otherwise a new interval whose handle goes to \<open>timerRef.current\<close>.
\<close>

definition effect :: "playback \<Rightarrow> playback" where
  "effect s =
     (if \<not> p_playing s then s\<lparr>has_cleanup := False\<rparr>
      else (let (h, s') = setInterval (p_cycleHour s) (p_speedMs s) s
            in s'\<lparr>timerRef := Some h, has_cleanup := True\<rparr>))"

text \<open>
  The cleanup function the effect returns:
  \<open>if (timerRef.current) window.clearInterval(timerRef.current)\<close>; \<open>null\<close> and \<open>0\<close>
  are falsy.
\<close>

definition cleanup :: "playback \<Rightarrow> playback" where
  "cleanup s =
     (if has_cleanup s then
        (case timerRef s of
           None \<Rightarrow> s
         | Some h \<Rightarrow> if h \<noteq> 0 then clearInterval h s else s)
      else s)"

text \<open>
  React, when one of the dependencies \<open>[playing, speedMs, cycleHour]\<close> has changed: the
  cleanup of the previous run, then the effect again.
\<close>

definition deps_changed :: "playback \<Rightarrow> playback" where
  "deps_changed s = effect (cleanup s)"

text \<open>The first render, at UTC hour \<open>utcHourNow\<close>, and the first run of the effect.\<close>

definition mount :: "int \<Rightarrow> playback" where
  "mount utcHourNow =
     effect \<lparr>p_cycleHour = utcHourNow, p_fhr = 3, p_playing = False, p_speedMs = 600,
             timerRef = None, intervals = [], next_handle = 1, has_cleanup = False,
             mounted = True\<rparr>"

datatype ui_event =
    TogglePlay
  | SetCycleHour int
  | SetSpeedMs int
  | Tick nat
  | PrevHour
  | NextHour
  | SelectHour int
  | Unmount

text \<open>
  One event. A state setter that sets the value it already has changes nothing; an
  interval that was cleared does not fire; after the unmount nothing happens. The result
  is \<open>None\<close> if an updater reads outside the hours list.
\<close>

definition step :: "ui_event \<Rightarrow> playback \<Rightarrow> playback option" where
  "step e s =
     (if \<not> mounted s then Some s
      else case e of
        TogglePlay \<Rightarrow> Some (deps_changed (s\<lparr>p_playing := \<not> p_playing s\<rparr>))
      | SetCycleHour h \<Rightarrow>
          Some (if h = p_cycleHour s then s else deps_changed (s\<lparr>p_cycleHour := h\<rparr>))
      | SetSpeedMs ms \<Rightarrow>
          Some (if ms = p_speedMs s then s else deps_changed (s\<lparr>p_speedMs := ms\<rparr>))
      | Tick h \<Rightarrow>
          (case find (\<lambda>t. fst t = h) (intervals s) of
             None \<Rightarrow> Some s
           | Some (_, _, closed_cycleHour) \<Rightarrow>
               map_option (\<lambda>v. s\<lparr>p_fhr := v\<rparr>) (tick_update closed_cycleHour (p_fhr s)))
      | PrevHour \<Rightarrow> Some (s\<lparr>p_fhr := prev_update (p_fhr s)\<rparr>)
      | NextHour \<Rightarrow> map_option (\<lambda>v. s\<lparr>p_fhr := v\<rparr>) (next_update (p_cycleHour s) (p_fhr s))
      | SelectHour h \<Rightarrow> Some (s\<lparr>p_fhr := h\<rparr>)
      | Unmount \<Rightarrow> Some ((cleanup s)\<lparr>mounted := False\<rparr>))"

fun run :: "ui_event list \<Rightarrow> playback \<Rightarrow> playback option" where
  "run [] s = Some s"
| "run (e # es) s = (case step e s of None \<Rightarrow> None | Some s' \<Rightarrow> run es s')"

text \<open>What holds of the timers in every state the component reaches.\<close>

definition timer_inv :: "playback \<Rightarrow> bool" where
  "timer_inv s \<longleftrightarrow>
     0 < next_handle s
     \<and> (if p_playing s \<and> mounted s
         then has_cleanup s
              \<and> (\<exists>h. 0 < h \<and> h < next_handle s \<and> timerRef s = Some h
                     \<and> intervals s = [(h, p_speedMs s, p_cycleHour s)])
         else intervals s = [] \<and> (mounted s \<longrightarrow> \<not> has_cleanup s))"

section \<open>Properties\<close>

subsection \<open>Valid forecast hours\<close>

lemma indexOf_from_upt:
  "indexOf_from k (map int [a ..< b]) x =
     (if int a \<le> x \<and> x < int b then k + (x - int a) else - 1)"
proof (induction "b - a" arbitrary: a k)
  case 0
  then show ?case by simp
next
  case (Suc n)
  then have ab: "a < b" and n: "n = b - Suc a" by simp_all
  have "[a ..< b] = a # [Suc a ..< b]" using ab by (simp add: upt_conv_Cons)
  then show ?case using Suc.hyps(1) [OF n, of "k + 1"] by auto
qed

lemma listHoursForCycle_eq:
  "listHoursForCycle h = map int [0 ..< (if isExtendedCycle h then 49 else 19)]"
proof -
  have "(if isExtendedCycle h then 48 else 18 :: nat) + 1 = (if isExtendedCycle h then 49 else 19)"
    by simp
  then show ?thesis unfolding listHoursForCycle_def Let_def by (rule arg_cong)
qed

text \<open>
  Claim C5. For every cycle hour \<open>h\<close>, the list of valid forecast hours is exactly the
  consecutive integers 0..48 (49 entries) when \<open>h\<close> is one of 0, 6, 12, 18, and exactly
  0..18 (19 entries) otherwise; the lists of cycle 0 and cycle 3 have 49 and 19 entries.
\<close>

theorem listHoursForCycle_range:
  "(h \<in> {0, 6, 12, 18} \<longrightarrow> listHoursForCycle h = [0 .. 48] \<and> length (listHoursForCycle h) = 49)
   \<and> (h \<notin> {0, 6, 12, 18} \<longrightarrow> listHoursForCycle h = [0 .. 18] \<and> length (listHoursForCycle h) = 19)
   \<and> length (listHoursForCycle 0) = 49 \<and> length (listHoursForCycle 3) = 19"
proof -
  have e48: "map int [0 ..< 49] = [0 .. 48]" by code_simp
  have e18: "map int [0 ..< 19] = [0 .. 18]" by code_simp
  show ?thesis
    by (simp add: listHoursForCycle_eq isExtendedCycle_def e48 e18)
qed

theorem listHoursForCycle_range_witness:
  "listHoursForCycle 12 = [0 .. 48] \<and> length (listHoursForCycle 12) = 49
   \<and> listHoursForCycle 7 = [0 .. 18] \<and> length (listHoursForCycle 7) = 19"
  using listHoursForCycle_range [of 12] listHoursForCycle_range [of 7] by simp

subsection \<open>Advancing\<close>

lemma at_index_upt:
  "at_index (map int [0 ..< n]) i = (if 0 \<le> i \<and> i < int n then Some i else None)"
  by (auto simp: at_index_def nat_less_iff)

lemma tick_update_eq:
  "tick_update c f =
     Some (if 0 \<le> f \<and> f < (if isExtendedCycle c then 48 else 18) then f + 1 else 0)"
  unfolding tick_update_def Let_def listHoursForCycle_eq indexOf_def indexOf_from_upt at_index_upt
  by (cases "isExtendedCycle c") (simp_all del: upt_Suc)

lemma next_update_eq_tick: "next_update c f = tick_update c f"
  by (simp add: next_update_def tick_update_def)

lemma set_listHoursForCycle:
  "set (listHoursForCycle c) = {0 .. (if isExtendedCycle c then 48 else 18)}"
proof -
  have "int ` {0 ..< n} = {0 ..< int n}" for n :: nat
    by (simp add: image_int_atLeastLessThan)
  then show ?thesis
    unfolding listHoursForCycle_eq by (auto simp del: upt_Suc)
qed

lemma last_listHoursForCycle:
  "last (listHoursForCycle c) = (if isExtendedCycle c then 48 else 18)"
  unfolding listHoursForCycle_eq by (simp add: last_map del: upt_Suc)

lemma nth_listHoursForCycle:
  "i < length (listHoursForCycle c) \<Longrightarrow> listHoursForCycle c ! i = int i"
  unfolding listHoursForCycle_eq by (simp del: upt_Suc)

lemma length_listHoursForCycle:
  "length (listHoursForCycle c) = (if isExtendedCycle c then 49 else 19)"
  unfolding listHoursForCycle_eq by (simp del: upt_Suc)

text \<open>
  Claim C6. For every cycle hour and every current forecast hour, the advance operation
  (the same for a timer tick and for the "next" action) gives the next element of the
  cycle's valid-hours list when the current hour is in the list and is not its last
  element, and the first element, 0, when the current hour is the last element or is not
  in the list; from 18 under cycle 3 and from 48 under cycle 0 it gives 0.
\<close>

theorem advance_wraps:
  "next_update c f = tick_update c f
   \<and> (f \<in> set (listHoursForCycle c) \<and> f \<noteq> last (listHoursForCycle c) \<longrightarrow>
        (\<exists>i. Suc i < length (listHoursForCycle c) \<and> listHoursForCycle c ! i = f
             \<and> tick_update c f = Some (listHoursForCycle c ! Suc i)))
   \<and> (f \<notin> set (listHoursForCycle c) \<or> f = last (listHoursForCycle c) \<longrightarrow>
        tick_update c f = Some (hd (listHoursForCycle c)) \<and> hd (listHoursForCycle c) = 0)
   \<and> tick_update 3 18 = Some 0 \<and> tick_update 0 48 = Some 0"
proof -
  let ?m = "if isExtendedCycle c then 48 else 18 :: int"
  have hd0: "hd (listHoursForCycle c) = 0"
    unfolding listHoursForCycle_eq by (simp add: hd_map upt_conv_Cons del: upt_Suc)
  have A: "\<exists>i. Suc i < length (listHoursForCycle c) \<and> listHoursForCycle c ! i = f
             \<and> tick_update c f = Some (listHoursForCycle c ! Suc i)"
    if "f \<in> set (listHoursForCycle c)" "f \<noteq> last (listHoursForCycle c)"
  proof -
    from that have f: "0 \<le> f" "f < ?m"
      by (auto simp: set_listHoursForCycle last_listHoursForCycle split: if_splits)
    then have len: "Suc (nat f) < length (listHoursForCycle c)"
      by (auto simp: length_listHoursForCycle split: if_splits)
    have "listHoursForCycle c ! nat f = f"
      using len f by (simp add: nth_listHoursForCycle)
    moreover have "tick_update c f = Some (listHoursForCycle c ! Suc (nat f))"
      using len f by (simp add: nth_listHoursForCycle tick_update_eq)
    ultimately show ?thesis using len by blast
  qed
  have B: "tick_update c f = Some (hd (listHoursForCycle c))"
    if "f \<notin> set (listHoursForCycle c) \<or> f = last (listHoursForCycle c)"
    using that
    by (auto simp: set_listHoursForCycle last_listHoursForCycle tick_update_eq hd0 split: if_splits)
  have C: "tick_update 3 18 = Some 0" "tick_update 0 48 = Some 0"
    by (simp_all add: tick_update_eq isExtendedCycle_def)
  show ?thesis using A B C hd0 next_update_eq_tick by blast
qed

theorem advance_wraps_witness:
  "(20 \<in> set (listHoursForCycle 6) \<and> 20 \<noteq> last (listHoursForCycle 6))
   \<and> (\<exists>i. Suc i < length (listHoursForCycle 6) \<and> listHoursForCycle 6 ! i = 20
          \<and> tick_update 6 20 = Some (listHoursForCycle 6 ! Suc i))
   \<and> 30 \<notin> set (listHoursForCycle 5)
   \<and> tick_update 5 30 = Some (hd (listHoursForCycle 5)) \<and> hd (listHoursForCycle 5) = 0"
proof -
  have h1: "20 \<in> set (listHoursForCycle 6) \<and> 20 \<noteq> last (listHoursForCycle 6)"
    by (simp add: set_listHoursForCycle last_listHoursForCycle isExtendedCycle_def)
  have h2: "30 \<notin> set (listHoursForCycle 5)"
    by (simp add: set_listHoursForCycle isExtendedCycle_def)
  show ?thesis
    using h1 h2 advance_wraps [of 6 20] advance_wraps [of 5 30] by blast
qed

subsection \<open>Stepping back\<close>

text \<open>
  Claim C7. For every current forecast hour \<open>f\<close>, the "previous" operation gives
  \<open>max 0 (f - 1)\<close>: one less, never below 0 and with no wrap-around at the low end;
  from 0 it stays at 0.
\<close>

theorem prev_update_floor:
  "prev_update f = max 0 (f - 1) \<and> 0 \<le> prev_update f \<and> prev_update 0 = 0
   \<and> (1 \<le> f \<longrightarrow> prev_update f = f - 1) \<and> (f \<le> 0 \<longrightarrow> prev_update f = 0)"
  by (simp add: prev_update_def)

theorem prev_update_floor_witness:
  "prev_update 7 = 6 \<and> prev_update (- 3) = 0 \<and> prev_update 0 = 0"
  using prev_update_floor [of 7] prev_update_floor [of "- 3"] by simp

subsection \<open>The shape of the direct URL\<close>

lemma digit_char_numeral:
  "digit_char 0 = CHR ''0''" "digit_char 1 = CHR ''1''" "digit_char 2 = CHR ''2''"
  "digit_char 3 = CHR ''3''" "digit_char 4 = CHR ''4''" "digit_char 5 = CHR ''5''"
  "digit_char 6 = CHR ''6''" "digit_char 7 = CHR ''7''" "digit_char 8 = CHR ''8''"
  "digit_char 9 = CHR ''9''" "digit_char (Suc 0) = CHR ''1''"
  unfolding digit_char_def by code_simp+

lemma padStart_zero: "padStart n ''0'' s = replicate (n - length s) CHR ''0'' @ s"
proof -
  have "concat (replicate k ''0'') = replicate k CHR ''0''" for k
    by (induction k) simp_all
  then show ?thesis by (simp add: padStart_def)
qed

lemma padStart_short:
  "padStart 2 ''0'' [] = ''00''" "padStart 2 ''0'' [a] = [CHR ''0'', a]"
  "padStart 3 ''0'' [] = ''000''" "padStart 3 ''0'' [a] = [CHR ''0'', CHR ''0'', a]"
  "padStart 3 ''0'' [a, b] = [CHR ''0'', a, b]"
  by (simp_all add: padStart_zero eval_nat_numeral)

lemma padStart_long: "n \<le> length s \<Longrightarrow> padStart n p s = s"
  by (simp add: padStart_def)

lemma digits_lt10: "n < 10 \<Longrightarrow> digits n = [digit_char n]"
  by (simp add: digits.simps)

lemma digits_lt100: "10 \<le> n \<Longrightarrow> n < 100 \<Longrightarrow> digits n = [digit_char (n div 10), digit_char (n mod 10)]"
  by (subst digits.simps) (simp add: digits_lt10 less_mult_imp_div_less)

lemma digits_lt1000:
  "100 \<le> n \<Longrightarrow> n < 1000 \<Longrightarrow>
     digits n = [digit_char (n div 100), digit_char (n div 10 mod 10), digit_char (n mod 10)]"
  by (subst digits.simps) (simp add: digits_lt100 less_mult_imp_div_less div_mult2_eq [symmetric])

lemma pad2_cycle:
  assumes "0 \<le> c" "c < 100"
  shows "padStart 2 ''0'' (String_of c) = [digit_char (nat c div 10), digit_char (nat c mod 10)]"
proof (cases "c < 10")
  case True
  with assms show ?thesis by (simp add: padStart_short String_of_def digits_lt10 digit_char_numeral)
next
  case False
  with assms show ?thesis by (simp add: padStart_short padStart_long String_of_def digits_lt100 digit_char_numeral)
qed

lemma pad3_fhr:
  assumes "0 \<le> f" "f < 1000"
  shows "padStart 3 ''0'' (String_of f) =
           [digit_char (nat f div 100), digit_char (nat f div 10 mod 10), digit_char (nat f mod 10)]"
proof -
  consider "f < 10" | "10 \<le> f" "f < 100" | "100 \<le> f" by linarith
  then show ?thesis
  proof cases
    case 1
    with assms show ?thesis by (simp add: padStart_short String_of_def digits_lt10 digit_char_numeral)
  next
    case 2
    with assms show ?thesis by (simp add: padStart_short padStart_long String_of_def digits_lt100 digit_char_numeral)
  next
    case 3
    with assms show ?thesis by (simp add: padStart_long String_of_def digits_lt1000)
  qed
qed

lemma String_of_3: "String_of 3 = ''3''"
  by (simp add: String_of_def digits_lt10 digit_char_numeral)

lemma String_of_12: "String_of 12 = ''12''"
  by (simp add: String_of_def digits_lt100 digit_char_numeral)

text \<open>
  Claim C2. For every model, area, cycle hour, forecast hour, parameter and size suffix,
  the direct URL is \<open>https://mag.ncep.noaa.gov/data/\<close>, the model name with the cycle
  hour zero-padded to 2 digits directly after it, a slash, and the file name
  \<open>model_area_HHH00_parameter\<close> followed by the size suffix and \<open>.gif\<close>, where
  \<open>HHH\<close> is the forecast hour zero-padded to 3 digits. The two examples of the
  specification evaluate as it says.
\<close>

theorem buildMagDirectUrl_shape:
  "buildMagDirectUrl sz \<lparr>a_model = Some m, a_area = Some a, a_cycleHour = c, a_fhr = f, a_param = p\<rparr>
     = ''https://mag.ncep.noaa.gov/data/'' @ m @ padStart 2 ''0'' (String_of c) @ ''/''
       @ buildMagFilename sz m a f p
   \<and> buildMagFilename sz m a f p
     = m @ ''_'' @ a @ ''_'' @ padStart 3 ''0'' (String_of f) @ ''00_'' @ p @ sz @ ''.gif''
   \<and> (0 \<le> c \<and> c \<le> 23 \<longrightarrow>
        padStart 2 ''0'' (String_of c) = [digit_char (nat c div 10), digit_char (nat c mod 10)])
   \<and> (0 \<le> f \<and> f \<le> 999 \<longrightarrow>
        padStart 3 ''0'' (String_of f)
          = [digit_char (nat f div 100), digit_char (nat f div 10 mod 10), digit_char (nat f mod 10)])
   \<and> buildMagFilename '''' ''hrrr'' ''conus'' 3 ''ceiling'' = ''hrrr_conus_00300_ceiling.gif''
   \<and> buildMagDirectUrl ''''
        \<lparr>a_model = Some ''hrrr'', a_area = Some ''conus'', a_cycleHour = 12, a_fhr = 3,
         a_param = ''ceiling''\<rparr>
     = ''https://mag.ncep.noaa.gov/data/hrrr12/hrrr_conus_00300_ceiling.gif''"
proof -
  have 1: "buildMagFilename sz m a f p
     = m @ ''_'' @ a @ ''_'' @ padStart 3 ''0'' (String_of f) @ ''00_'' @ p @ sz @ ''.gif''" for sz m a f p
    by (simp add: buildMagFilename_def)
  have 2: "buildMagDirectUrl sz \<lparr>a_model = Some m, a_area = Some a, a_cycleHour = c, a_fhr = f, a_param = p\<rparr>
     = ''https://mag.ncep.noaa.gov/data/'' @ m @ padStart 2 ''0'' (String_of c) @ ''/''
       @ buildMagFilename sz m a f p" for sz m a c f p
    by (simp add: buildMagDirectUrl_def)
  have 3: "0 \<le> c \<and> c \<le> 23 \<longrightarrow>
        padStart 2 ''0'' (String_of c) = [digit_char (nat c div 10), digit_char (nat c mod 10)]"
    by (simp add: pad2_cycle)
  have 4: "0 \<le> f \<and> f \<le> 999 \<longrightarrow>
        padStart 3 ''0'' (String_of f)
          = [digit_char (nat f div 100), digit_char (nat f div 10 mod 10), digit_char (nat f mod 10)]"
    by (simp add: pad3_fhr)
  have 5: "buildMagFilename '''' ''hrrr'' ''conus'' 3 ''ceiling'' = ''hrrr_conus_00300_ceiling.gif''"
    by (simp add: 1 String_of_3 padStart_short)
  have 6: "buildMagDirectUrl ''''
        \<lparr>a_model = Some ''hrrr'', a_area = Some ''conus'', a_cycleHour = 12, a_fhr = 3,
         a_param = ''ceiling''\<rparr>
     = ''https://mag.ncep.noaa.gov/data/hrrr12/hrrr_conus_00300_ceiling.gif''"
    by (simp add: 2 1 String_of_3 String_of_12 padStart_short padStart_long)
  show ?thesis using 1 2 3 4 5 6 by blast
qed

theorem buildMagDirectUrl_shape_witness:
  "buildMagDirectUrl ''_l''
     \<lparr>a_model = Some ''nam'', a_area = Some ''east'', a_cycleHour = 6, a_fhr = 48, a_param = ''vis''\<rparr>
     = ''https://mag.ncep.noaa.gov/data/nam06/nam_east_04800_vis_l.gif''"
proof -
  have c: "(0::int) \<le> 6 \<and> (6::int) \<le> 23" and f: "(0::int) \<le> 48 \<and> (48::int) \<le> 999" by simp_all
  show ?thesis
    using buildMagDirectUrl_shape [of "''_l''" "''nam''" "''east''" 6 48 "''vis''"] c f
    by (simp add: digit_char_numeral)
qed

subsection \<open>Letter case in the file name\<close>

lemma toLowerCase_append [simp]: "toLowerCase (xs @ ys) = toLowerCase xs @ toLowerCase ys"
  by (simp add: toLowerCase_def)

lemma toLowerCase_Nil [simp]: "toLowerCase [] = []"
  by (simp add: toLowerCase_def)

lemma length_toLowerCase [simp]: "length (toLowerCase s) = length s"
  by (simp add: toLowerCase_def)

lemma toLowerCase_Cons: "toLowerCase (c # s) = lower_char c # toLowerCase s"
  by (simp add: toLowerCase_def)

lemma lower_char_digit: "d < 10 \<Longrightarrow> lower_char (digit_char d) = digit_char d"
  by (simp add: lower_char_def digit_char_def)

lemma toLowerCase_digits: "toLowerCase (digits n) = digits n"
proof (induction n rule: digits.induct)
  case (1 n)
  show ?case
  proof (cases "n < 10")
    case True
    then show ?thesis by (simp add: digits_lt10 toLowerCase_Cons lower_char_digit)
  next
    case False
    then have "digits n = digits (n div 10) @ [digit_char (n mod 10)]"
      by (subst digits.simps) simp
    then show ?thesis using 1 False by (simp add: toLowerCase_Cons lower_char_digit)
  qed
qed

lemma lower_char_fixed:
  "lower_char CHR ''-'' = CHR ''-''" "lower_char CHR ''0'' = CHR ''0''"
  "lower_char CHR ''_'' = CHR ''_''" "lower_char CHR ''.'' = CHR ''.''"
  "lower_char CHR ''g'' = CHR ''g''" "lower_char CHR ''i'' = CHR ''i''"
  "lower_char CHR ''f'' = CHR ''f''"
  by (simp_all add: lower_char_def)

lemma toLowerCase_String_of: "toLowerCase (String_of n) = String_of n"
  by (simp add: String_of_def toLowerCase_Cons toLowerCase_digits lower_char_fixed)

lemma toLowerCase_padStart: "toLowerCase (padStart n ''0'' s) = padStart n ''0'' (toLowerCase s)"
proof -
  have "toLowerCase (replicate k CHR ''0'') = replicate k CHR ''0''" for k
    by (simp add: toLowerCase_def lower_char_fixed)
  then show ?thesis by (simp add: padStart_zero)
qed

lemma toLowerCase_buildMagFilename:
  "toLowerCase (buildMagFilename sz m a f p)
     = buildMagFilename (toLowerCase sz) (toLowerCase m) (toLowerCase a) f (toLowerCase p)"
  by (simp add: buildMagFilename_def toLowerCase_padStart toLowerCase_String_of
      toLowerCase_Cons lower_char_fixed)

lemma buildMagFilename_inject:
  "length sz = length sz' \<Longrightarrow> length m = length m' \<Longrightarrow> length a = length a' \<Longrightarrow>
   length p = length p' \<Longrightarrow>
   buildMagFilename sz m a f p = buildMagFilename sz' m' a' f p'
     \<longleftrightarrow> sz = sz' \<and> m = m' \<and> a = a' \<and> p = p'"
  by (auto simp: buildMagFilename_def)

text \<open>
  Claim C3, as amended. The file-name builder composes model, area, parameter and size
  suffix verbatim, with no case coercion; lower-casing its result is the same as
  lower-casing those four inputs, so the file name is all lower case exactly when the four
  inputs are.
\<close>

theorem buildMagFilename_case_verbatim:
  "buildMagFilename sz m a f p
     = m @ ''_'' @ a @ ''_'' @ padStart 3 ''0'' (String_of f) @ ''00_'' @ p @ sz @ ''.gif''
   \<and> toLowerCase (buildMagFilename sz m a f p)
     = buildMagFilename (toLowerCase sz) (toLowerCase m) (toLowerCase a) f (toLowerCase p)
   \<and> (toLowerCase (buildMagFilename sz m a f p) = buildMagFilename sz m a f p
        \<longleftrightarrow> toLowerCase m = m \<and> toLowerCase a = a \<and> toLowerCase p = p \<and> toLowerCase sz = sz)"
proof -
  have "toLowerCase (buildMagFilename sz m a f p) = buildMagFilename sz m a f p
        \<longleftrightarrow> toLowerCase sz = sz \<and> toLowerCase m = m \<and> toLowerCase a = a \<and> toLowerCase p = p"
    unfolding toLowerCase_buildMagFilename by (rule buildMagFilename_inject) simp_all
  then show ?thesis
    using toLowerCase_buildMagFilename [of sz m a f p]
    by (auto simp: buildMagFilename_def)
qed

lemma toLowerCase_examples:
  "toLowerCase ''HRRR'' = ''hrrr''" "toLowerCase ''hrrr'' = ''hrrr''"
  "toLowerCase ''conus'' = ''conus''" "toLowerCase ''ceiling'' = ''ceiling''"
  "toLowerCase ''_L'' = ''_l''" "toLowerCase '''' = ''''" "toLowerCase ''CONUS'' = ''conus''"
  "toLowerCase ''Vis'' = ''vis''" "toLowerCase ''vis'' = ''vis''"
  by code_simp+

theorem buildMagFilename_case_verbatim_witness:
  "toLowerCase (buildMagFilename '''' ''hrrr'' ''conus'' 3 ''ceiling'')
     = buildMagFilename '''' ''hrrr'' ''conus'' 3 ''ceiling''
   \<and> toLowerCase (buildMagFilename '''' ''HRRR'' ''conus'' 3 ''ceiling'')
     = buildMagFilename '''' ''hrrr'' ''conus'' 3 ''ceiling''"
proof -
  have lc: "toLowerCase ''hrrr'' = ''hrrr'' \<and> toLowerCase ''conus'' = ''conus''
            \<and> toLowerCase ''ceiling'' = ''ceiling'' \<and> toLowerCase '''' = ''''"
    by (simp add: toLowerCase_examples)
  have 1: "toLowerCase (buildMagFilename '''' ''hrrr'' ''conus'' 3 ''ceiling'')
             = buildMagFilename '''' ''hrrr'' ''conus'' 3 ''ceiling''"
    using buildMagFilename_case_verbatim [of "''''" "''hrrr''" "''conus''" 3 "''ceiling''",
        THEN conjunct2, THEN conjunct2, THEN iffD2, OF lc] .
  have 2: "toLowerCase (buildMagFilename '''' ''HRRR'' ''conus'' 3 ''ceiling'')
             = buildMagFilename '''' ''hrrr'' ''conus'' 3 ''ceiling''"
    using buildMagFilename_case_verbatim [of "''''" "''HRRR''" "''conus''" 3 "''ceiling''",
        THEN conjunct2, THEN conjunct1]
    by (simp only: toLowerCase_examples)
  show ?thesis using 1 2 by (rule conjI)
qed

text \<open>
  The claim as stated fails: two models that differ only in letter case give different
  file names and URLs.
\<close>

theorem buildMagFilename_not_lowercased:
  "toLowerCase ''HRRR'' = toLowerCase ''hrrr''
   \<and> buildMagFilename '''' ''HRRR'' ''conus'' 3 ''ceiling'' = ''HRRR_conus_00300_ceiling.gif''
   \<and> buildMagFilename '''' ''HRRR'' ''conus'' 3 ''ceiling''
       \<noteq> buildMagFilename '''' ''hrrr'' ''conus'' 3 ''ceiling''
   \<and> buildMagDirectUrl ''''
        \<lparr>a_model = Some ''HRRR'', a_area = Some ''conus'', a_cycleHour = 12, a_fhr = 3,
         a_param = ''ceiling''\<rparr>
       = ''https://mag.ncep.noaa.gov/data/HRRR12/HRRR_conus_00300_ceiling.gif''"
  by (simp add: toLowerCase_examples buildMagFilename_def buildMagDirectUrl_def String_of_3
      String_of_12 padStart_short padStart_long)


subsection \<open>The relay's parameters\<close>

lemma handler_remote_eq:
  "handler_remote ev =
     ''https://mag.ncep.noaa.gov/data/'' @ r_model (handler_params ev) @ r_cycle (handler_params ev)
       @ ''/'' @ r_model (handler_params ev) @ ''_'' @ r_area (handler_params ev) @ ''_''
       @ r_fhr (handler_params ev) @ ''00_'' @ r_param (handler_params ev)
       @ r_size (handler_params ev) @ ''.gif''"
  by (simp add: handler_remote_def Let_def)

lemma handler_params_sel:
  "r_model (handler_params ev) = toLowerCase (or_default (handler_p ev ''model'') ''hrrr'')"
  "r_area (handler_params ev) = toLowerCase (or_default (handler_p ev ''area'') ''conus'')"
  "r_cycle (handler_params ev) = padStart 2 ''0'' (or_default (handler_p ev ''cycle'') '''')"
  "r_fhr (handler_params ev) = padStart 3 ''0'' (or_default (handler_p ev ''fhr'') ''0'')"
  "r_param (handler_params ev) = toLowerCase (or_default (handler_p ev ''param'') ''ceiling'')"
  "r_size (handler_params ev) = or_default (handler_p ev ''size'') ''''"
  by (simp_all add: handler_params_def Let_def)

text \<open>
  Claim C4, as amended. For every request the relay takes \<open>model\<close>, \<open>area\<close> and
  \<open>param\<close> in lower case, with the defaults \<open>hrrr\<close>, \<open>conus\<close> and \<open>ceiling\<close> for a
  missing or empty value; it pads \<open>cycle\<close> to 2 and \<open>fhr\<close> to 3 characters with zeros,
  as strings, a missing or empty value giving \<open>00\<close> and \<open>000\<close> and a value already that
  long passing through unchanged, whatever its characters; and it takes \<open>size\<close> as it
  is given, in the case it is given, with the empty string as default.
\<close>

theorem handler_params_spec:
  "(handler_p ev ''model'' \<in> {None, Some ''''} \<longrightarrow> r_model (handler_params ev) = ''hrrr'')
   \<and> (handler_p ev ''model'' = Some m \<and> m \<noteq> '''' \<longrightarrow> r_model (handler_params ev) = toLowerCase m)
   \<and> (handler_p ev ''area'' \<in> {None, Some ''''} \<longrightarrow> r_area (handler_params ev) = ''conus'')
   \<and> (handler_p ev ''area'' = Some a \<and> a \<noteq> '''' \<longrightarrow> r_area (handler_params ev) = toLowerCase a)
   \<and> (handler_p ev ''param'' \<in> {None, Some ''''} \<longrightarrow> r_param (handler_params ev) = ''ceiling'')
   \<and> (handler_p ev ''param'' = Some p \<and> p \<noteq> '''' \<longrightarrow> r_param (handler_params ev) = toLowerCase p)
   \<and> (handler_p ev ''cycle'' \<in> {None, Some ''''} \<longrightarrow> r_cycle (handler_params ev) = ''00'')
   \<and> (handler_p ev ''cycle'' = Some c \<and> c \<noteq> '''' \<longrightarrow>
        r_cycle (handler_params ev) = replicate (2 - length c) CHR ''0'' @ c
        \<and> (2 \<le> length c \<longrightarrow> r_cycle (handler_params ev) = c))
   \<and> (handler_p ev ''fhr'' \<in> {None, Some ''''} \<longrightarrow> r_fhr (handler_params ev) = ''000'')
   \<and> (handler_p ev ''fhr'' = Some f \<and> f \<noteq> '''' \<longrightarrow>
        r_fhr (handler_params ev) = replicate (3 - length f) CHR ''0'' @ f
        \<and> (3 \<le> length f \<longrightarrow> r_fhr (handler_params ev) = f))
   \<and> (handler_p ev ''size'' = None \<longrightarrow> r_size (handler_params ev) = '''')
   \<and> (handler_p ev ''size'' = Some z \<longrightarrow> r_size (handler_params ev) = z)"
proof -
  have r2: "replicate 2 CHR ''0'' = ''00''" by (simp add: eval_nat_numeral)
  show ?thesis
    by (auto simp: handler_params_sel or_default_def padStart_zero r2 toLowerCase_examples)
qed

theorem handler_params_spec_witness:
  "r_model (handler_params \<lparr>queryStringParameters =
      Some [''model'' \<mapsto> ''HRRR'', ''cycle'' \<mapsto> ''7'', ''fhr'' \<mapsto> ''1234'', ''size'' \<mapsto> ''_L'']\<rparr>) = ''hrrr''
   \<and> r_area (handler_params \<lparr>queryStringParameters =
      Some [''model'' \<mapsto> ''HRRR'', ''cycle'' \<mapsto> ''7'', ''fhr'' \<mapsto> ''1234'', ''size'' \<mapsto> ''_L'']\<rparr>) = ''conus''
   \<and> r_cycle (handler_params \<lparr>queryStringParameters =
      Some [''model'' \<mapsto> ''HRRR'', ''cycle'' \<mapsto> ''7'', ''fhr'' \<mapsto> ''1234'', ''size'' \<mapsto> ''_L'']\<rparr>) = ''07''
   \<and> r_fhr (handler_params \<lparr>queryStringParameters =
      Some [''model'' \<mapsto> ''HRRR'', ''cycle'' \<mapsto> ''7'', ''fhr'' \<mapsto> ''1234'', ''size'' \<mapsto> ''_L'']\<rparr>) = ''1234''
   \<and> r_size (handler_params \<lparr>queryStringParameters =
      Some [''model'' \<mapsto> ''HRRR'', ''cycle'' \<mapsto> ''7'', ''fhr'' \<mapsto> ''1234'', ''size'' \<mapsto> ''_L'']\<rparr>) = ''_L''"
  using handler_params_spec [of "\<lparr>queryStringParameters =
      Some [''model'' \<mapsto> ''HRRR'', ''cycle'' \<mapsto> ''7'', ''fhr'' \<mapsto> ''1234'', ''size'' \<mapsto> ''_L'']\<rparr>"
      "''HRRR''" "''''" "''''" "''7''" "''1234''" "''_L''"]
  by (simp add: handler_p_def toLowerCase_examples)

theorem handler_size_not_lowercased:
  "r_size (handler_params \<lparr>queryStringParameters = Some [''size'' \<mapsto> ''_L'']\<rparr>) = ''_L''
   \<and> r_size (handler_params \<lparr>queryStringParameters = Some [''size'' \<mapsto> ''_L'']\<rparr>)
       \<noteq> toLowerCase ''_L''
   \<and> handler_remote \<lparr>queryStringParameters = Some [''size'' \<mapsto> ''_L'']\<rparr>
       = ''https://mag.ncep.noaa.gov/data/hrrr00/hrrr_conus_00000_ceiling_L.gif''"
  by (simp add: handler_remote_eq handler_params_sel handler_p_def or_default_def
      padStart_short toLowerCase_examples)

subsection \<open>The query string round trip\<close>

lemma percent_decode_plain: "c \<noteq> CHR ''%'' \<Longrightarrow> percent_decode (c # s) = c # percent_decode s"
  by (cases "(c # s)" rule: percent_decode.cases) auto

lemma of_char_hex_char:
  "d < 16 \<Longrightarrow> (of_char (hex_char d) :: nat) = (if d < 10 then 48 + d else 55 + d)"
  by (simp add: hex_char_def)

lemma hex_val_hex_char: "d < 16 \<Longrightarrow> hex_val (hex_char d) = Some d"
  by (simp add: hex_val_def of_char_hex_char Let_def)

lemma percent_decode_triple:
  "percent_decode (CHR ''%'' # hex_char ((of_char c :: nat) div 16)
       # hex_char ((of_char c :: nat) mod 16) # s) = c # percent_decode s"
proof -
  have "(of_char c :: nat) < 256" by simp
  then have "(of_char c :: nat) div 16 < 16" by (simp add: less_mult_imp_div_less)
  moreover have "char_of (16 * ((of_char c :: nat) div 16) + (of_char c :: nat) mod 16) = c"
    by simp
  ultimately show ?thesis by (simp add: hex_val_hex_char)
qed


lemma urldecode_urlencode_byte:
  "percent_decode (map (\<lambda>c. if c = CHR ''+'' then CHR '' '' else c) (urlencode_byte c) @ s)
     = c # percent_decode s"
proof -
  have hex_not_plus: "hex_char d \<noteq> CHR ''+''" if "d < 16" for d
  proof
    assume "hex_char d = CHR ''+''"
    then have "(of_char (hex_char d) :: nat) = 43" by simp
    with that show False by (simp add: of_char_hex_char split: if_splits)
  qed
  have d1: "(of_char c :: nat) div 16 < 16"
    by (simp add: less_mult_imp_div_less)
  have d2: "(of_char c :: nat) mod 16 < 16" by simp
  show ?thesis
  proof (cases "c = CHR '' ''")
    case True
    then show ?thesis by (simp add: urlencode_byte_def percent_decode_plain)
  next
    case sp: False
    show ?thesis
    proof (cases "urlencoded_safe c")
      case True
      then have "c \<noteq> CHR ''+''" "c \<noteq> CHR ''%''"
        by (auto simp: urlencoded_safe_def)
      with True sp show ?thesis by (simp add: urlencode_byte_def percent_decode_plain)
    next
      case False
      with sp show ?thesis
        using hex_not_plus [OF d1] hex_not_plus [OF d2]
        by (simp add: urlencode_byte_def percent_decode_triple del: percent_decode.simps)
    qed
  qed
qed

lemma urldecode_urlencode: "urldecode (urlencode s) = s"
proof -
  have "percent_decode (map (\<lambda>c. if c = CHR ''+'' then CHR '' '' else c) (urlencode s)) = s"
  proof (induction s)
    case Nil
    then show ?case by (simp add: urlencode_def)
  next
    case (Cons c s)
    then show ?case using urldecode_urlencode_byte [of c] by (simp add: urlencode_def)
  qed
  then show ?thesis by (simp add: urldecode_def)
qed

lemma urlencode_byte_no_sep:
  "CHR ''&'' \<notin> set (urlencode_byte c)" "CHR ''='' \<notin> set (urlencode_byte c)"
proof -
  have hex: "hex_char d \<noteq> CHR ''&'' \<and> hex_char d \<noteq> CHR ''=''" if "d < 16" for d
  proof -
    have "(of_char (hex_char d) :: nat) \<noteq> 38 \<and> (of_char (hex_char d) :: nat) \<noteq> 61"
      using that by (simp add: of_char_hex_char)
    then show ?thesis by auto
  qed
  have d1: "(of_char c :: nat) div 16 < 16"
    by (simp add: less_mult_imp_div_less)
  have d2: "(of_char c :: nat) mod 16 < 16" by simp
  have safe: "urlencoded_safe c \<Longrightarrow> c \<noteq> CHR ''&'' \<and> c \<noteq> CHR ''=''"
    by (auto simp: urlencoded_safe_def)
  show "CHR ''&'' \<notin> set (urlencode_byte c)" "CHR ''='' \<notin> set (urlencode_byte c)"
    using hex [OF d1] hex [OF d2] safe by (auto simp: urlencode_byte_def)
qed

lemma urlencode_no_sep:
  "CHR ''&'' \<notin> set (urlencode s)" "CHR ''='' \<notin> set (urlencode s)"
  using urlencode_byte_no_sep by (auto simp: urlencode_def)

lemma split_on_absent: "sep \<notin> set s \<Longrightarrow> split_on sep s = [s]"
  by (induction s) auto

lemma split_on_append: "sep \<notin> set a \<Longrightarrow> split_on sep (a @ sep # b) = a # split_on sep b"
  by (induction a) auto

lemma parse_pair_encoded: "parse_pair (urlencode k @ ''='' @ urlencode v) = (k, v)"
proof -
  have "\<forall>c\<in>set (urlencode k). c \<noteq> CHR ''=''" using urlencode_no_sep(2) [of k] by auto
  then show ?thesis
    by (simp add: parse_pair_def takeWhile_append2 dropWhile_append2 urldecode_urlencode)
qed

lemma pair_no_amp: "CHR ''&'' \<notin> set (urlencode k @ ''='' @ urlencode v)"
  using urlencode_no_sep(1) by simp

lemma parse_query_single:
  "CHR ''&'' \<notin> set e \<Longrightarrow> e \<noteq> [] \<Longrightarrow> parse_query e = [parse_pair e]"
  by (simp add: parse_query_def split_on_absent)

lemma parse_query_cons:
  "CHR ''&'' \<notin> set e \<Longrightarrow> e \<noteq> [] \<Longrightarrow>
     parse_query (e @ CHR ''&'' # r) = parse_pair e # parse_query r"
  by (simp add: parse_query_def split_on_append)

lemma parse_query_toString: "parse_query (URLSearchParams_toString qs) = qs"
proof (induction qs rule: induct_list012)
  case 1
  then show ?case by (simp add: parse_query_def URLSearchParams_toString_def)
next
  case (2 x)
  obtain k v where x: "x = (k, v)" by (cases x)
  define e where "e = urlencode k @ ''='' @ urlencode v"
  have e: "CHR ''&'' \<notin> set e" "e \<noteq> []" "parse_pair e = (k, v)"
    unfolding e_def using pair_no_amp [of k v] parse_pair_encoded [of k v] by simp_all
  have "URLSearchParams_toString [x] = e"
    by (simp add: x e_def URLSearchParams_toString_def)
  then show ?case using e by (simp add: parse_query_single x)
next
  case (3 x y zs)
  obtain k v where x: "x = (k, v)" by (cases x)
  define e where "e = urlencode k @ ''='' @ urlencode v"
  have e: "CHR ''&'' \<notin> set e" "e \<noteq> []" "parse_pair e = (k, v)"
    unfolding e_def using pair_no_amp [of k v] parse_pair_encoded [of k v] by simp_all
  have "URLSearchParams_toString (x # y # zs) = e @ CHR ''&'' # URLSearchParams_toString (y # zs)"
    by (simp add: x e_def URLSearchParams_toString_def)
  then show ?case using e 3 by (simp add: parse_query_cons x)
qed

lemma query_of_proxy_url: "query_of_url (PROXY_BASE @ ''?'' @ q) = q"
  by (simp add: query_of_url_def PROXY_BASE_def)


lemma padStart_idem: "padStart n ''0'' (padStart n ''0'' s) = padStart n ''0'' s"
  by (simp add: padStart_def)

lemma padStart_nonempty: "0 < n \<Longrightarrow> padStart n ''0'' s \<noteq> []"
  by (auto simp: padStart_zero)

lemma or_default_Some: "s \<noteq> [] \<Longrightarrow> or_default (Some s) d = s"
  by (simp add: or_default_def)

lemma parse_proxy_url:
  "parse_query (query_of_url (buildMagProxyUrl args)) =
     [(''model'', case a_model args of None \<Rightarrow> ''hrrr'' | Some m \<Rightarrow> m),
      (''area'', case a_area args of None \<Rightarrow> AREA | Some a \<Rightarrow> a),
      (''cycle'', padStart 2 ''0'' (String_of (a_cycleHour args))),
      (''fhr'', padStart 3 ''0'' (String_of (a_fhr args))),
      (''param'', a_param args)]"
  unfolding buildMagProxyUrl_def Let_def query_of_proxy_url parse_query_toString ..

lemma handler_p_proxy:
  "handler_p (event_of_url (buildMagProxyUrl args)) =
     [''model'' \<mapsto> (case a_model args of None \<Rightarrow> ''hrrr'' | Some m \<Rightarrow> m),
      ''area'' \<mapsto> (case a_area args of None \<Rightarrow> AREA | Some a \<Rightarrow> a),
      ''cycle'' \<mapsto> padStart 2 ''0'' (String_of (a_cycleHour args)),
      ''fhr'' \<mapsto> padStart 3 ''0'' (String_of (a_fhr args)),
      ''param'' \<mapsto> a_param args]"
  by (rule ext) (simp add: handler_p_def event_of_url_def parse_proxy_url)

lemma handler_remote_proxy:
  "handler_remote (event_of_url (buildMagProxyUrl args)) =
     ''https://mag.ncep.noaa.gov/data/''
       @ toLowerCase (or_default (Some (case a_model args of None \<Rightarrow> ''hrrr'' | Some m \<Rightarrow> m)) ''hrrr'')
       @ padStart 2 ''0'' (String_of (a_cycleHour args)) @ ''/''
       @ toLowerCase (or_default (Some (case a_model args of None \<Rightarrow> ''hrrr'' | Some m \<Rightarrow> m)) ''hrrr'')
       @ ''_''
       @ toLowerCase (or_default (Some (case a_area args of None \<Rightarrow> AREA | Some a \<Rightarrow> a)) ''conus'')
       @ ''_'' @ padStart 3 ''0'' (String_of (a_fhr args)) @ ''00_''
       @ toLowerCase (or_default (Some (a_param args)) ''ceiling'') @ ''.gif''"
proof -
  have c: "or_default (Some (padStart 2 ''0'' (String_of (a_cycleHour args)))) '''' =
             padStart 2 ''0'' (String_of (a_cycleHour args))"
    by (simp add: or_default_def)
  have f: "or_default (Some (padStart 3 ''0'' (String_of (a_fhr args)))) ''0'' =
             padStart 3 ''0'' (String_of (a_fhr args))"
    by (simp add: or_default_Some padStart_nonempty)
  show ?thesis
    by (simp add: handler_remote_eq handler_params_sel handler_p_proxy c f padStart_idem
        or_default_def [of None])
qed


lemma buildMagDirectUrl_eq:
  "buildMagDirectUrl sz args =
     ''https://mag.ncep.noaa.gov/data/''
       @ (case a_model args of None \<Rightarrow> ''hrrr'' | Some m \<Rightarrow> m)
       @ padStart 2 ''0'' (String_of (a_cycleHour args)) @ ''/''
       @ (case a_model args of None \<Rightarrow> ''hrrr'' | Some m \<Rightarrow> m) @ ''_''
       @ (case a_area args of None \<Rightarrow> AREA | Some a \<Rightarrow> a)
       @ ''_'' @ padStart 3 ''0'' (String_of (a_fhr args)) @ ''00_''
       @ a_param args @ sz @ ''.gif''"
  by (simp add: buildMagDirectUrl_def buildMagFilename_def Let_def)

text \<open>
  Claim C1, as amended. For every input tuple whose model and area, when given, and whose
  parameter are not empty and are left unchanged by lower-casing, with the size suffix
  empty as the repository configures it, and for every integer cycle hour and forecast
  hour (so in particular for cycle hours in [0,23] and forecast hours in [0,999]), the
  direct URL of \<open>buildMagDirectUrl\<close> equals the URL the relay derives from the query
  parameters of the proxy URL of \<open>buildMagProxyUrl\<close> for the same tuple.
\<close>

theorem proxy_roundtrip:
  assumes "case a_model args of None \<Rightarrow> True | Some m \<Rightarrow> m \<noteq> [] \<and> toLowerCase m = m"
    and "case a_area args of None \<Rightarrow> True | Some a \<Rightarrow> a \<noteq> [] \<and> toLowerCase a = a"
    and "a_param args \<noteq> []" and "toLowerCase (a_param args) = a_param args"
  shows "handler_remote (event_of_url (buildMagProxyUrl args))
           = buildMagDirectUrl MAG_SIZE_SUFFIX args"
proof -
  have m: "toLowerCase (or_default (Some (case a_model args of None \<Rightarrow> ''hrrr'' | Some m \<Rightarrow> m)) ''hrrr'')
             = (case a_model args of None \<Rightarrow> ''hrrr'' | Some m \<Rightarrow> m)"
    using assms(1) by (simp add: or_default_def toLowerCase_examples split: option.splits)
  have a: "toLowerCase (or_default (Some (case a_area args of None \<Rightarrow> AREA | Some a \<Rightarrow> a)) ''conus'')
             = (case a_area args of None \<Rightarrow> AREA | Some a \<Rightarrow> a)"
    using assms(2) by (simp add: or_default_def AREA_def toLowerCase_examples split: option.splits)
  have p: "toLowerCase (or_default (Some (a_param args)) ''ceiling'') = a_param args"
    using assms(3,4) by (simp add: or_default_def)
  show ?thesis
    unfolding handler_remote_proxy m a p
    by (simp add: buildMagDirectUrl_eq MAG_SIZE_SUFFIX_def)
qed

theorem proxy_roundtrip_witness:
  "handler_remote (event_of_url (buildMagProxyUrl
      \<lparr>a_model = None, a_area = Some ''conus'', a_cycleHour = 12, a_fhr = 3, a_param = ''ceiling''\<rparr>))
     = ''https://mag.ncep.noaa.gov/data/hrrr12/hrrr_conus_00300_ceiling.gif''"
proof -
  have "buildMagDirectUrl MAG_SIZE_SUFFIX
      \<lparr>a_model = None, a_area = Some ''conus'', a_cycleHour = 12, a_fhr = 3, a_param = ''ceiling''\<rparr>
     = ''https://mag.ncep.noaa.gov/data/hrrr12/hrrr_conus_00300_ceiling.gif''"
    by (simp add: buildMagDirectUrl_eq MAG_SIZE_SUFFIX_def String_of_3
        String_of_12 padStart_short padStart_long)
  then show ?thesis
    using proxy_roundtrip [of "\<lparr>a_model = None, a_area = Some ''conus'', a_cycleHour = 12,
        a_fhr = 3, a_param = ''ceiling''\<rparr>"]
    by (simp add: toLowerCase_examples)
qed

text \<open>
  The claim as stated fails for a model in upper case, for an empty parameter and for a
  size suffix that is not empty: the relay lower-cases and defaults what the client
  composes verbatim, and the proxy URL carries no size.
\<close>

theorem proxy_roundtrip_fails:
  "handler_remote (event_of_url (buildMagProxyUrl
      \<lparr>a_model = Some ''HRRR'', a_area = Some ''conus'', a_cycleHour = 12, a_fhr = 3,
       a_param = ''ceiling''\<rparr>))
     \<noteq> buildMagDirectUrl ''''
      \<lparr>a_model = Some ''HRRR'', a_area = Some ''conus'', a_cycleHour = 12, a_fhr = 3,
       a_param = ''ceiling''\<rparr>
   \<and> handler_remote (event_of_url (buildMagProxyUrl
      \<lparr>a_model = Some ''hrrr'', a_area = Some ''conus'', a_cycleHour = 12, a_fhr = 3,
       a_param = ''''\<rparr>))
     \<noteq> buildMagDirectUrl ''''
      \<lparr>a_model = Some ''hrrr'', a_area = Some ''conus'', a_cycleHour = 12, a_fhr = 3,
       a_param = ''''\<rparr>
   \<and> handler_remote (event_of_url (buildMagProxyUrl
      \<lparr>a_model = Some ''hrrr'', a_area = Some ''conus'', a_cycleHour = 12, a_fhr = 3,
       a_param = ''ceiling''\<rparr>))
     \<noteq> buildMagDirectUrl ''_l''
      \<lparr>a_model = Some ''hrrr'', a_area = Some ''conus'', a_cycleHour = 12, a_fhr = 3,
       a_param = ''ceiling''\<rparr>
   \<and> handler_remote (event_of_url (buildMagProxyUrl
      \<lparr>a_model = Some ''HRRR'', a_area = Some ''conus'', a_cycleHour = 12, a_fhr = 3,
       a_param = ''ceiling''\<rparr>))
     = ''https://mag.ncep.noaa.gov/data/hrrr12/hrrr_conus_00300_ceiling.gif''
   \<and> buildMagDirectUrl ''''
      \<lparr>a_model = Some ''HRRR'', a_area = Some ''conus'', a_cycleHour = 12, a_fhr = 3,
       a_param = ''ceiling''\<rparr>
     = ''https://mag.ncep.noaa.gov/data/HRRR12/HRRR_conus_00300_ceiling.gif''
   \<and> handler_remote (event_of_url (buildMagProxyUrl
      \<lparr>a_model = Some ''hrrr'', a_area = Some ''conus'', a_cycleHour = 12, a_fhr = 3,
       a_param = ''''\<rparr>))
     = ''https://mag.ncep.noaa.gov/data/hrrr12/hrrr_conus_00300_ceiling.gif''
   \<and> buildMagDirectUrl ''''
      \<lparr>a_model = Some ''hrrr'', a_area = Some ''conus'', a_cycleHour = 12, a_fhr = 3,
       a_param = ''''\<rparr>
     = ''https://mag.ncep.noaa.gov/data/hrrr12/hrrr_conus_00300_.gif''
   \<and> handler_remote (event_of_url (buildMagProxyUrl
      \<lparr>a_model = Some ''hrrr'', a_area = Some ''conus'', a_cycleHour = 12, a_fhr = 3,
       a_param = ''ceiling''\<rparr>))
     = ''https://mag.ncep.noaa.gov/data/hrrr12/hrrr_conus_00300_ceiling.gif''
   \<and> buildMagDirectUrl ''_l''
      \<lparr>a_model = Some ''hrrr'', a_area = Some ''conus'', a_cycleHour = 12, a_fhr = 3,
       a_param = ''ceiling''\<rparr>
     = ''https://mag.ncep.noaa.gov/data/hrrr12/hrrr_conus_00300_ceiling_l.gif''"
  by (simp add: handler_remote_proxy buildMagDirectUrl_eq or_default_def
      toLowerCase_examples String_of_3 String_of_12 padStart_short padStart_long)


subsection \<open>The proxied request never carries a size\<close>

lemma urlencode_keys:
  "urlencode ''model'' = ''model''" "urlencode ''area'' = ''area''"
  "urlencode ''cycle'' = ''cycle''" "urlencode ''fhr'' = ''fhr''"
  "urlencode ''param'' = ''param''"
  by (simp_all add: urlencode_def urlencode_byte_def urlencoded_safe_def)

text \<open>
  Claim C10. For every input tuple, the query string of the proxy URL has exactly the five
  keys \<open>model\<close>, \<open>area\<close>, \<open>cycle\<close>, \<open>fhr\<close> and \<open>param\<close> and never a \<open>size\<close> key, so
  the relay serves every such request with its default, empty size suffix: the URL it
  fetches ends in the parameter and \<open>.gif\<close>, while a configured size suffix stands
  between the two in the client's direct URL.
\<close>

theorem proxy_url_has_no_size:
  "buildMagProxyUrl args =
     ''/.netlify/functions/mag?model=''
       @ urlencode (case a_model args of None \<Rightarrow> ''hrrr'' | Some m \<Rightarrow> m)
       @ ''&area='' @ urlencode (case a_area args of None \<Rightarrow> ''conus'' | Some a \<Rightarrow> a)
       @ ''&cycle='' @ urlencode (padStart 2 ''0'' (String_of (a_cycleHour args)))
       @ ''&fhr='' @ urlencode (padStart 3 ''0'' (String_of (a_fhr args)))
       @ ''&param='' @ urlencode (a_param args)
   \<and> map fst (parse_query (query_of_url (buildMagProxyUrl args)))
       = [''model'', ''area'', ''cycle'', ''fhr'', ''param'']
   \<and> dom (handler_p (event_of_url (buildMagProxyUrl args)))
       = {''model'', ''area'', ''cycle'', ''fhr'', ''param''}
   \<and> handler_p (event_of_url (buildMagProxyUrl args)) ''size'' = None
   \<and> r_size (handler_params (event_of_url (buildMagProxyUrl args))) = ''''
   \<and> handler_remote (event_of_url (buildMagProxyUrl args))
       = ''https://mag.ncep.noaa.gov/data/''
           @ r_model (handler_params (event_of_url (buildMagProxyUrl args)))
           @ r_cycle (handler_params (event_of_url (buildMagProxyUrl args))) @ ''/''
           @ r_model (handler_params (event_of_url (buildMagProxyUrl args))) @ ''_''
           @ r_area (handler_params (event_of_url (buildMagProxyUrl args))) @ ''_''
           @ r_fhr (handler_params (event_of_url (buildMagProxyUrl args))) @ ''00_''
           @ r_param (handler_params (event_of_url (buildMagProxyUrl args))) @ ''.gif''
   \<and> buildMagDirectUrl sz args
       = ''https://mag.ncep.noaa.gov/data/''
           @ (case a_model args of None \<Rightarrow> ''hrrr'' | Some m \<Rightarrow> m)
           @ padStart 2 ''0'' (String_of (a_cycleHour args)) @ ''/''
           @ (case a_model args of None \<Rightarrow> ''hrrr'' | Some m \<Rightarrow> m) @ ''_''
           @ (case a_area args of None \<Rightarrow> ''conus'' | Some a \<Rightarrow> a) @ ''_''
           @ padStart 3 ''0'' (String_of (a_fhr args)) @ ''00_'' @ a_param args @ sz @ ''.gif''"
proof -
  have 1: "buildMagProxyUrl args =
     ''/.netlify/functions/mag?model=''
       @ urlencode (case a_model args of None \<Rightarrow> ''hrrr'' | Some m \<Rightarrow> m)
       @ ''&area='' @ urlencode (case a_area args of None \<Rightarrow> ''conus'' | Some a \<Rightarrow> a)
       @ ''&cycle='' @ urlencode (padStart 2 ''0'' (String_of (a_cycleHour args)))
       @ ''&fhr='' @ urlencode (padStart 3 ''0'' (String_of (a_fhr args)))
       @ ''&param='' @ urlencode (a_param args)"
    unfolding buildMagProxyUrl_def AREA_def PROXY_BASE_def
    by (simp add: Let_def URLSearchParams_toString_def urlencode_keys)
  have 2: "map fst (parse_query (query_of_url (buildMagProxyUrl args)))
       = [''model'', ''area'', ''cycle'', ''fhr'', ''param'']"
    by (simp add: parse_proxy_url)
  have 3: "dom (handler_p (event_of_url (buildMagProxyUrl args)))
       = {''model'', ''area'', ''cycle'', ''fhr'', ''param''}"
    unfolding handler_p_proxy by (simp add: insert_commute)
  have 4: "handler_p (event_of_url (buildMagProxyUrl args)) ''size'' = None"
    by (simp add: handler_p_proxy)
  have 5: "r_size (handler_params (event_of_url (buildMagProxyUrl args))) = ''''"
    by (simp add: handler_params_sel 4 or_default_def)
  have 6: "handler_remote (event_of_url (buildMagProxyUrl args))
       = ''https://mag.ncep.noaa.gov/data/''
           @ r_model (handler_params (event_of_url (buildMagProxyUrl args)))
           @ r_cycle (handler_params (event_of_url (buildMagProxyUrl args))) @ ''/''
           @ r_model (handler_params (event_of_url (buildMagProxyUrl args))) @ ''_''
           @ r_area (handler_params (event_of_url (buildMagProxyUrl args))) @ ''_''
           @ r_fhr (handler_params (event_of_url (buildMagProxyUrl args))) @ ''00_''
           @ r_param (handler_params (event_of_url (buildMagProxyUrl args))) @ ''.gif''"
    by (subst handler_remote_eq) (simp add: 5)
  have 7: "buildMagDirectUrl sz args
       = ''https://mag.ncep.noaa.gov/data/''
           @ (case a_model args of None \<Rightarrow> ''hrrr'' | Some m \<Rightarrow> m)
           @ padStart 2 ''0'' (String_of (a_cycleHour args)) @ ''/''
           @ (case a_model args of None \<Rightarrow> ''hrrr'' | Some m \<Rightarrow> m) @ ''_''
           @ (case a_area args of None \<Rightarrow> ''conus'' | Some a \<Rightarrow> a) @ ''_''
           @ padStart 3 ''0'' (String_of (a_fhr args)) @ ''00_'' @ a_param args @ sz @ ''.gif''"
    unfolding buildMagDirectUrl_eq AREA_def by simp
  show ?thesis using 1 2 3 4 5 6 7 by (intro conjI)
qed

lemma urlencode_examples:
  "urlencode ''hrrr'' = ''hrrr''" "urlencode ''conus'' = ''conus''" "urlencode ''12'' = ''12''"
  "urlencode ''003'' = ''003''" "urlencode ''ceiling'' = ''ceiling''"
  by (simp_all add: urlencode_def urlencode_byte_def urlencoded_safe_def)

theorem proxy_url_has_no_size_witness:
  "buildMagProxyUrl
     \<lparr>a_model = None, a_area = None, a_cycleHour = 12, a_fhr = 3, a_param = ''ceiling''\<rparr>
     = ''/.netlify/functions/mag?model=hrrr&area=conus&cycle=12&fhr=003&param=ceiling''
   \<and> buildMagDirectUrl ''_l''
     \<lparr>a_model = None, a_area = None, a_cycleHour = 12, a_fhr = 3, a_param = ''ceiling''\<rparr>
     = ''https://mag.ncep.noaa.gov/data/hrrr12/hrrr_conus_00300_ceiling_l.gif''"
  using proxy_url_has_no_size [of "\<lparr>a_model = None, a_area = None, a_cycleHour = 12,
      a_fhr = 3, a_param = ''ceiling''\<rparr>" "''_l''"]
  by (simp add: String_of_3 String_of_12 padStart_short padStart_long urlencode_examples)

subsection \<open>The relay's three responses\<close>

lemma of_char_b64_char:
  "i < 64 \<Longrightarrow> (of_char (b64_char i) :: nat) =
     (if i < 26 then 65 + i else if i < 52 then 71 + i else if i < 62 then i - 4
      else if i = 62 then 43 else 47)"
  by (simp add: b64_char_def)

lemma b64_val_b64_char: "i < 64 \<Longrightarrow> b64_val (b64_char i) = Some i"
proof -
  assume i: "i < 64"
  then consider "i < 26" | "26 \<le> i" "i < 52" | "52 \<le> i" "i < 62" | "i = 62" | "i = 63"
    by linarith
  then show ?thesis
    by cases (auto simp: b64_val_def b64_char_def Let_def)
qed

lemma b64_char_not_pad: "i < 64 \<Longrightarrow> b64_char i \<noteq> CHR ''=''"
proof
  assume i: "i < 64" and "b64_char i = CHR ''=''"
  then have "(of_char (b64_char i) :: nat) = 61" by simp
  with i show False by (simp add: of_char_b64_char split: if_splits)
qed

lemma b64_bounds:
  fixes a b c :: nat
  assumes "a < 256" "b < 256" "c < 256"
  shows "a div 4 < 64" "a mod 4 * 16 + b div 16 < 64" "b mod 16 * 4 + c div 64 < 64"
    "c mod 64 < 64" "a mod 4 * 16 < 64" "b mod 16 * 4 < 64"
proof -
  have a4: "a mod 4 \<le> 3" and b16: "b mod 16 \<le> 15" by simp_all
  have bd: "b div 16 < 16" and cd: "c div 64 < 4" and ad: "a div 4 < 64"
    using assms by (simp_all add: less_mult_imp_div_less)
  show "a div 4 < 64" by (rule ad)
  show "a mod 4 * 16 + b div 16 < 64" using a4 bd by linarith
  show "b mod 16 * 4 + c div 64 < 64" using b16 cd by linarith
  show "c mod 64 < 64" by simp
  show "a mod 4 * 16 < 64" using a4 by linarith
  show "b mod 16 * 4 < 64" using b16 by linarith
qed
lemma divmod16: "x < 16 \<Longrightarrow> (k * 16 + x) div 16 = (k::nat)" "x < 16 \<Longrightarrow> (k * 16 + x) mod 16 = (x::nat)"
  by simp_all
lemma divmod4: "x < 4 \<Longrightarrow> (k * 4 + x) div 4 = (k::nat)" "x < 4 \<Longrightarrow> (k * 4 + x) mod 4 = (x::nat)"
  by simp_all
lemma b64_regroup:
  fixes a b c :: nat
  assumes "a < 256" "b < 256" "c < 256"
  shows 
    "a div 4 * 4 + (a mod 4 * 16 + b div 16) div 16 = a"
    "(a mod 4 * 16 + b div 16) mod 16 * 16 + (b mod 16 * 4 + c div 64) div 4 = b"
    "(b mod 16 * 4 + c div 64) mod 4 * 64 + c mod 64 = c"
    "a div 4 * 4 + (a mod 4 * 16) div 16 = a"
    "(a mod 4 * 16 + b div 16) mod 16 * 16 + (b mod 16 * 4) div 4 = b"
proof -
  have b16: "b div 16 < 16" and c64: "c div 64 < 4" using assms by (simp_all add: less_mult_imp_div_less)
  show "a div 4 * 4 + (a mod 4 * 16 + b div 16) div 16 = a" using b16 by (simp add: divmod16)
  show "(a mod 4 * 16 + b div 16) mod 16 * 16 + (b mod 16 * 4 + c div 64) div 4 = b"
    using b16 c64 by (simp add: divmod16 divmod4)
  show "(b mod 16 * 4 + c div 64) mod 4 * 64 + c mod 64 = c" using c64 by (simp add: divmod4)
  show "a div 4 * 4 + (a mod 4 * 16) div 16 = a" by simp
  show "(a mod 4 * 16 + b div 16) mod 16 * 16 + (b mod 16 * 4) div 4 = b" using b16 by (simp add: divmod16)
qed

lemma unat_byte_lt: "unat (a :: byte) < 256"
  using unsigned_less [of a, where 'a = nat] by simp

lemma base64_decode_base64: "base64_decode (base64 bs) = Some bs"
proof (induction bs rule: base64.induct)
  case (1 a b c rest)
  note bd = b64_bounds [OF unat_byte_lt [of a] unat_byte_lt [of b] unat_byte_lt [of c]]
  note rg = b64_regroup [OF unat_byte_lt [of a] unat_byte_lt [of b] unat_byte_lt [of c]]
  have v: "b64_val (b64_char (unat a div 4)) = Some (unat a div 4)"
    "b64_val (b64_char (unat a mod 4 * 16 + unat b div 16)) = Some (unat a mod 4 * 16 + unat b div 16)"
    "b64_val (b64_char (unat b mod 16 * 4 + unat c div 64)) = Some (unat b mod 16 * 4 + unat c div 64)"
    "b64_val (b64_char (unat c mod 64)) = Some (unat c mod 64)"
    using bd by (simp_all only: b64_val_b64_char)
  have np: "b64_char (unat c mod 64) \<noteq> CHR ''=''"
    using bd(4) by (rule b64_char_not_pad)
  have "base64_decode (base64 (a # b # c # rest)) =
          map_option (\<lambda>bs. of_nat (unat a) # of_nat (unat b) # of_nat (unat c) # bs)
            (base64_decode (base64 rest))"
    by (simp only: base64.simps append.simps base64_decode.simps np v rg
        if_False simp_thms option.case prod.case)
  then show ?case using 1 by simp
next
  case (2 a b)
  note bd = b64_bounds [OF unat_byte_lt [of a] unat_byte_lt [of b] unat_byte_lt [of 0]]
  note rg = b64_regroup [OF unat_byte_lt [of a] unat_byte_lt [of b] unat_byte_lt [of 0]]
  have v: "b64_val (b64_char (unat a div 4)) = Some (unat a div 4)"
    "b64_val (b64_char (unat a mod 4 * 16 + unat b div 16)) = Some (unat a mod 4 * 16 + unat b div 16)"
    "b64_val (b64_char (unat b mod 16 * 4)) = Some (unat b mod 16 * 4)"
    using bd by (simp_all only: b64_val_b64_char)
  have np: "b64_char (unat b mod 16 * 4) \<noteq> CHR ''=''"
    using bd(6) by (rule b64_char_not_pad)
  have "base64_decode (base64 [a, b]) = Some [of_nat (unat a), of_nat (unat b)]"
    by (simp only: base64.simps base64_decode.simps np v rg
        if_False if_True simp_thms option.case prod.case)
  then show ?case by simp
next
  case (3 a)
  note bd = b64_bounds [OF unat_byte_lt [of a] unat_byte_lt [of 0] unat_byte_lt [of 0]]
  note rg = b64_regroup [OF unat_byte_lt [of a] unat_byte_lt [of 0] unat_byte_lt [of 0]]
  have v: "b64_val (b64_char (unat a div 4)) = Some (unat a div 4)"
    "b64_val (b64_char (unat a mod 4 * 16)) = Some (unat a mod 4 * 16)"
    using bd by (simp_all only: b64_val_b64_char)
  have "base64_decode (base64 [a]) = Some [of_nat (unat a)]"
    by (simp only: base64.simps base64_decode.simps v rg
        if_False if_True simp_thms option.case prod.case)
  then show ?case by simp
next
  case 4
  show ?case by simp
qed


lemma handler_cases:
  "fetch (handler_remote ev) fetch_headers = Rejected e \<Longrightarrow> handler fetch ev = caught e"
  "fetch (handler_remote ev) fetch_headers = Resolved resp \<Longrightarrow> \<not> up_ok resp \<Longrightarrow>
     up_text resp = Inl e \<Longrightarrow> handler fetch ev = caught e"
  "fetch (handler_remote ev) fetch_headers = Resolved resp \<Longrightarrow> \<not> up_ok resp \<Longrightarrow>
     up_text resp = Inr t \<Longrightarrow>
     handler fetch ev =
       \<lparr>statusCode = up_status resp, headers = None, body = t, isBase64Encoded = None\<rparr>"
  "fetch (handler_remote ev) fetch_headers = Resolved resp \<Longrightarrow> up_ok resp \<Longrightarrow>
     up_arrayBuffer resp = Inl e \<Longrightarrow> handler fetch ev = caught e"
  "fetch (handler_remote ev) fetch_headers = Resolved resp \<Longrightarrow> up_ok resp \<Longrightarrow>
     up_arrayBuffer resp = Inr ab \<Longrightarrow>
     handler fetch ev =
       \<lparr>statusCode = 200,
        headers = Some [(''Content-Type'', ''image/gif''),
                        (''Cache-Control'', ''public, max-age=300''),
                        (''Access-Control-Allow-Origin'', ''*'')],
        body = base64 ab, isBase64Encoded = Some True\<rparr>"
  by (simp_all add: handler_def Let_def)

text \<open>
  Claim C8. Every invocation of the relay answers in one of three shapes. When the remote
  host answers with a 2xx status and its bytes are read: status 200, the headers
  \<open>Content-Type: image/gif\<close>, \<open>Cache-Control: public, max-age=300\<close> and
  \<open>Access-Control-Allow-Origin: *\<close>, the base64 flag set, and a base64 body that decodes
  back to exactly the remote bytes. When the remote host answers with another status and
  its text is read: that status, that text unchanged, no headers (a 404 with body
  \<open>not found\<close> is answered as 404 with body \<open>not found\<close>). When the fetch or the read
  throws: status 500 with the string of the error as body.
\<close>

theorem handler_three_shapes:
  "(fetch (handler_remote ev) fetch_headers = Resolved resp
      \<and> 200 \<le> up_status resp \<and> up_status resp \<le> 299 \<and> up_arrayBuffer resp = Inr ab \<longrightarrow>
      handler fetch ev =
        \<lparr>statusCode = 200,
         headers = Some [(''Content-Type'', ''image/gif''),
                         (''Cache-Control'', ''public, max-age=300''),
                         (''Access-Control-Allow-Origin'', ''*'')],
         body = base64 ab, isBase64Encoded = Some True\<rparr>
      \<and> base64_decode (body (handler fetch ev)) = Some ab)
   \<and> (fetch (handler_remote ev) fetch_headers = Resolved resp
      \<and> \<not> (200 \<le> up_status resp \<and> up_status resp \<le> 299) \<and> up_text resp = Inr t \<longrightarrow>
      handler fetch ev =
        \<lparr>statusCode = up_status resp, headers = None, body = t, isBase64Encoded = None\<rparr>)
   \<and> (fetch (handler_remote ev) fetch_headers = Rejected e
      \<or> fetch (handler_remote ev) fetch_headers = Resolved resp
          \<and> (if 200 \<le> up_status resp \<and> up_status resp \<le> 299
               then up_arrayBuffer resp = Inl e else up_text resp = Inl e) \<longrightarrow>
      handler fetch ev =
        \<lparr>statusCode = 500, headers = None, body = e, isBase64Encoded = None\<rparr>)
   \<and> ((\<exists>bs. handler fetch ev =
              \<lparr>statusCode = 200,
               headers = Some [(''Content-Type'', ''image/gif''),
                               (''Cache-Control'', ''public, max-age=300''),
                               (''Access-Control-Allow-Origin'', ''*'')],
               body = base64 bs, isBase64Encoded = Some True\<rparr>)
        \<or> (\<exists>st tx. \<not> (200 \<le> st \<and> st \<le> 299) \<and> handler fetch ev =
              \<lparr>statusCode = st, headers = None, body = tx, isBase64Encoded = None\<rparr>)
        \<or> (\<exists>err. handler fetch ev =
              \<lparr>statusCode = 500, headers = None, body = err, isBase64Encoded = None\<rparr>))
   \<and> handler (\<lambda>url hs. Resolved \<lparr>up_status = 404, up_text = Inr ''not found'',
                                     up_arrayBuffer = Inr []\<rparr>) ev
       = \<lparr>statusCode = 404, headers = None, body = ''not found'', isBase64Encoded = None\<rparr>"
proof -
  let ?r = "fetch (handler_remote ev) fetch_headers"
  let ?ok = "\<lambda>resp. 200 \<le> up_status resp \<and> up_status resp \<le> 299"
  have 1: "handler fetch ev =
        \<lparr>statusCode = 200,
         headers = Some [(''Content-Type'', ''image/gif''),
                         (''Cache-Control'', ''public, max-age=300''),
                         (''Access-Control-Allow-Origin'', ''*'')],
         body = base64 ab, isBase64Encoded = Some True\<rparr>
      \<and> base64_decode (body (handler fetch ev)) = Some ab"
    if "?r = Resolved resp" "?ok resp" "up_arrayBuffer resp = Inr ab"
    using handler_cases(5) [of fetch ev resp ab] that
    by (simp add: up_ok_def base64_decode_base64)
  have 2: "handler fetch ev =
        \<lparr>statusCode = up_status resp, headers = None, body = t, isBase64Encoded = None\<rparr>"
    if "?r = Resolved resp" "\<not> ?ok resp" "up_text resp = Inr t"
    using handler_cases(3) [of fetch ev resp t] that by (simp add: up_ok_def)
  have 3: "handler fetch ev =
        \<lparr>statusCode = 500, headers = None, body = e, isBase64Encoded = None\<rparr>"
    if "?r = Rejected e \<or> ?r = Resolved resp
          \<and> (if ?ok resp then up_arrayBuffer resp = Inl e else up_text resp = Inl e)"
    using that handler_cases(1) [of fetch ev e] handler_cases(2) [of fetch ev resp e]
      handler_cases(4) [of fetch ev resp e]
    by (auto simp: up_ok_def caught_def split: if_splits)
  have 4: "(\<exists>bs. handler fetch ev =
              \<lparr>statusCode = 200,
               headers = Some [(''Content-Type'', ''image/gif''),
                               (''Cache-Control'', ''public, max-age=300''),
                               (''Access-Control-Allow-Origin'', ''*'')],
               body = base64 bs, isBase64Encoded = Some True\<rparr>)
        \<or> (\<exists>st tx. \<not> (200 \<le> st \<and> st \<le> 299) \<and> handler fetch ev =
              \<lparr>statusCode = st, headers = None, body = tx, isBase64Encoded = None\<rparr>)
        \<or> (\<exists>err. handler fetch ev =
              \<lparr>statusCode = 500, headers = None, body = err, isBase64Encoded = None\<rparr>)"
  proof (cases ?r)
    case (Rejected err)
    then show ?thesis using handler_cases(1) [of fetch ev err] by (simp add: caught_def)
  next
    case (Resolved rs)
    show ?thesis
    proof (cases "up_ok rs")
      case True
      show ?thesis
      proof (cases "up_arrayBuffer rs")
        case (Inl err)
        then show ?thesis
          using handler_cases(4) [of fetch ev rs err] Resolved True by (simp add: caught_def)
      next
        case (Inr bs)
        then show ?thesis
          using handler_cases(5) [of fetch ev rs bs] Resolved True by blast
      qed
    next
      case False
      show ?thesis
      proof (cases "up_text rs")
        case (Inl err)
        then show ?thesis
          using handler_cases(2) [of fetch ev rs err] Resolved False by (simp add: caught_def)
      next
        case (Inr tx)
        have "\<not> (200 \<le> up_status rs \<and> up_status rs \<le> 299)"
          using False by (simp add: up_ok_def)
        then show ?thesis
          using handler_cases(3) [of fetch ev rs tx] Resolved False Inr by blast
      qed
    qed
  qed
  have 5: "handler (\<lambda>url hs. Resolved \<lparr>up_status = 404, up_text = Inr ''not found'',
                                     up_arrayBuffer = Inr []\<rparr>) ev
       = \<lparr>statusCode = 404, headers = None, body = ''not found'', isBase64Encoded = None\<rparr>"
    by (simp add: handler_def up_ok_def)
  show ?thesis using 1 2 3 4 5 by blast
qed


lemma base64_GIF: "base64 [71, 73, 70] = ''R0lG''"
  by code_simp

theorem handler_three_shapes_witness:
  "handler (\<lambda>url hs. Resolved \<lparr>up_status = 200, up_text = Inr ''GIF'',
                                  up_arrayBuffer = Inr [71, 73, 70]\<rparr>)
       \<lparr>queryStringParameters = None\<rparr>
     = \<lparr>statusCode = 200,
        headers = Some [(''Content-Type'', ''image/gif''),
                        (''Cache-Control'', ''public, max-age=300''),
                        (''Access-Control-Allow-Origin'', ''*'')],
        body = ''R0lG'', isBase64Encoded = Some True\<rparr>
   \<and> base64_decode ''R0lG'' = Some [71, 73, 70]
   \<and> handler (\<lambda>url hs. Resolved \<lparr>up_status = 403, up_text = Inr ''Forbidden'',
                                  up_arrayBuffer = Inr []\<rparr>)
       \<lparr>queryStringParameters = None\<rparr>
     = \<lparr>statusCode = 403, headers = None, body = ''Forbidden'', isBase64Encoded = None\<rparr>
   \<and> handler (\<lambda>url hs. Rejected ''TypeError: fetch failed'') \<lparr>queryStringParameters = None\<rparr>
     = \<lparr>statusCode = 500, headers = None, body = ''TypeError: fetch failed'',
        isBase64Encoded = None\<rparr>"
proof -
  let ?ev = "\<lparr>queryStringParameters = None\<rparr>"
  let ?ok = "\<lparr>up_status = 200, up_text = Inr ''GIF'', up_arrayBuffer = Inr [71, 73, 70]\<rparr>"
  let ?no = "\<lparr>up_status = 403, up_text = Inr ''Forbidden'', up_arrayBuffer = Inr []\<rparr>"
  have h: "Resolved ?ok = Resolved ?ok \<and> 200 \<le> up_status ?ok \<and> up_status ?ok \<le> 299
           \<and> up_arrayBuffer ?ok = Inr [71, 73, 70]"
    by simp
  note 1 = handler_three_shapes [of "\<lambda>url hs. Resolved ?ok" ?ev ?ok "[71, 73, 70]" "''''" "''''",
      THEN conjunct1, THEN mp, OF h]
  have 2: "base64_decode (base64 [71, 73, 70]) = Some [71, 73, 70]"
    using 1 [THEN conjunct2] unfolding 1 [THEN conjunct1]
    by (simp del: base64.simps base64_decode.simps)
  have 3: "handler (\<lambda>url hs. Resolved ?no) ?ev
     = \<lparr>statusCode = 403, headers = None, body = ''Forbidden'', isBase64Encoded = None\<rparr>"
    using handler_three_shapes [of "\<lambda>url hs. Resolved ?no" ?ev ?no "[]" "''Forbidden''" "''''"]
    by simp
  have 4: "handler (\<lambda>url hs. Rejected ''TypeError: fetch failed'') ?ev
     = \<lparr>statusCode = 500, headers = None, body = ''TypeError: fetch failed'',
        isBase64Encoded = None\<rparr>"
    using handler_three_shapes [of "\<lambda>url hs. Rejected ''TypeError: fetch failed''" ?ev ?no
        "[]" "''''" "''TypeError: fetch failed''"]
    by simp
  show ?thesis
    using 1 [THEN conjunct1] 2 3 4 unfolding base64_GIF by (intro conjI)
qed

subsection \<open>At most one interval timer\<close>

lemma timer_inv_mount: "timer_inv (mount h)"
  by (simp add: timer_inv_def mount_def effect_def)

lemma timer_inv_deps_changed:
  assumes "timer_inv s" "mounted s"
  shows "timer_inv (deps_changed (s\<lparr>p_playing := \<not> p_playing s\<rparr>))"
    and "timer_inv (deps_changed (s\<lparr>p_cycleHour := c\<rparr>))"
    and "timer_inv (deps_changed (s\<lparr>p_speedMs := ms\<rparr>))"
  using assms
  by (auto simp: timer_inv_def deps_changed_def effect_def cleanup_def setInterval_def
      clearInterval_def split: if_splits)

lemma tick_update_Some: "\<exists>v. tick_update c f = Some v"
  by (simp add: tick_update_eq)

lemma timer_inv_fhr: "timer_inv s \<Longrightarrow> timer_inv (s\<lparr>p_fhr := v\<rparr>)"
  by (auto simp: timer_inv_def)

lemma timer_inv_unmount: "timer_inv s \<Longrightarrow> timer_inv ((cleanup s)\<lparr>mounted := False\<rparr>)"
  by (auto simp: timer_inv_def cleanup_def clearInterval_def split: if_splits option.splits)

lemma step_timer_inv:
  assumes "timer_inv s"
  shows "\<exists>s'. step e s = Some s' \<and> timer_inv s'"
proof (cases "mounted s")
  case False
  with assms show ?thesis by (simp add: step_def)
next
  case True
  show ?thesis
  proof (cases e)
    case (Tick h)
    show ?thesis
    proof (cases "find (\<lambda>t. fst t = h) (intervals s)")
      case None
      with assms True Tick show ?thesis by (simp add: step_def)
    next
      case (Some t)
      obtain i d c where t: "t = (i, d, c)" by (cases t)
      obtain v where v: "tick_update c (p_fhr s) = Some v" using tick_update_Some by blast
      show ?thesis
        using assms True Tick Some t v by (simp add: step_def timer_inv_fhr)
    qed
  next
    case NextHour
    obtain v where v: "next_update (p_cycleHour s) (p_fhr s) = Some v"
      using tick_update_Some by (auto simp: next_update_eq_tick)
    with assms True NextHour show ?thesis by (simp add: step_def timer_inv_fhr)
  qed (use assms True in \<open>simp_all add: step_def timer_inv_fhr timer_inv_unmount
        timer_inv_deps_changed\<close>)
qed

lemma run_timer_inv:
  "timer_inv s \<Longrightarrow> \<exists>s'. run es s = Some s' \<and> timer_inv s'"
proof (induction es arbitrary: s)
  case Nil
  then show ?case by simp
next
  case (Cons e es)
  from step_timer_inv [OF Cons.prems, of e]
  obtain s1 where "step e s = Some s1" "timer_inv s1" by blast
  with Cons.IH [of s1] show ?case by simp
qed


lemma timer_inv_intervals:
  assumes "timer_inv s"
  shows "length (intervals s) \<le> 1"
    and "length (intervals s) = 1 \<longleftrightarrow> p_playing s \<and> mounted s"
    and "\<forall>t\<in>set (intervals s). timerRef s = Some (fst t) \<and> snd t = (p_speedMs s, p_cycleHour s)"
  using assms by (auto simp: timer_inv_def split: if_splits)

lemma timer_inv_restart:
  assumes "timer_inv s" "p_playing s" "mounted s"
  shows "intervals (cleanup s) = []" and "length (intervals (deps_changed s)) = 1"
  using assms
  by (auto simp: timer_inv_def deps_changed_def effect_def cleanup_def setInterval_def
      clearInterval_def)

lemma timer_inv_tick:
  assumes "timer_inv s"
  shows "\<exists>s'. step (Tick h) s = Some s'
           \<and> (s' = s \<or> (\<exists>v. tick_update (p_cycleHour s) (p_fhr s) = Some v \<and> s' = s\<lparr>p_fhr := v\<rparr>))"
proof (cases "mounted s \<and> find (\<lambda>t. fst t = h) (intervals s) \<noteq> None")
  case False
  then consider "\<not> mounted s" | "mounted s" "find (\<lambda>t. fst t = h) (intervals s) = None"
    by blast
  then show ?thesis by cases (simp_all add: step_def)
next
  case True
  then obtain i d c where f: "find (\<lambda>t. fst t = h) (intervals s) = Some (i, d, c)"
    by (cases "find (\<lambda>t. fst t = h) (intervals s)") auto
  then have "(i, d, c) \<in> set (intervals s)"
    by (auto simp: find_Some_iff in_set_conv_nth)
  then have c: "c = p_cycleHour s"
    using timer_inv_intervals(3) [OF assms] by auto
  obtain v where v: "tick_update (p_cycleHour s) (p_fhr s) = Some v"
    using tick_update_Some by blast
  show ?thesis using True f c v by (simp add: step_def)
qed

text \<open>
  Claim C9. In every state the playback machine reaches, whatever the events, at most one
  repeating timer is active, and exactly one while playing; it is the one whose handle
  \<open>timerRef\<close> holds, running at the current speed for the current cycle. The change of
  \<open>playing\<close>, \<open>speedMs\<close> or \<open>cycleHour\<close> clears it before the effect establishes a new
  one, so that establishing a timer again while playing leaves exactly one; and a tick
  advances the forecast hour once, by the updater for the current cycle.
\<close>

theorem at_most_one_timer:
  "\<exists>s. run evs (mount utcHourNow) = Some s
      \<and> length (intervals s) \<le> 1
      \<and> (length (intervals s) = 1 \<longleftrightarrow> p_playing s \<and> mounted s)
      \<and> (\<forall>t\<in>set (intervals s).
            timerRef s = Some (fst t) \<and> snd t = (p_speedMs s, p_cycleHour s))
      \<and> (p_playing s \<and> mounted s \<longrightarrow>
            intervals (cleanup s) = [] \<and> length (intervals (deps_changed s)) = 1)
      \<and> (\<forall>h. \<exists>s'. step (Tick h) s = Some s'
            \<and> (s' = s \<or> (\<exists>v. tick_update (p_cycleHour s) (p_fhr s) = Some v
                              \<and> s' = s\<lparr>p_fhr := v\<rparr>)))"
proof -
  obtain s where s: "run evs (mount utcHourNow) = Some s" and inv: "timer_inv s"
    using run_timer_inv [OF timer_inv_mount] by blast
  show ?thesis
    using s timer_inv_intervals [OF inv] timer_inv_restart [OF inv] timer_inv_tick [OF inv]
    by blast
qed

lemma run_example:
  "run [TogglePlay, SetSpeedMs 300, SetCycleHour 5, Tick 3, Tick 1] (mount 12) =
     Some \<lparr>p_cycleHour = 5, p_fhr = 4, p_playing = True, p_speedMs = 300, timerRef = Some 3,
           intervals = [(3, 300, 5)], next_handle = 4, has_cleanup = True, mounted = True\<rparr>"
  by (simp add: mount_def step_def deps_changed_def effect_def cleanup_def setInterval_def
      clearInterval_def tick_update_eq isExtendedCycle_def)

theorem at_most_one_timer_witness:
  "length (intervals \<lparr>p_cycleHour = 5, p_fhr = 4, p_playing = True, p_speedMs = 300,
       timerRef = Some 3, intervals = [(3, 300, 5)], next_handle = 4, has_cleanup = True,
       mounted = True\<rparr>) = 1
   \<and> intervals (cleanup \<lparr>p_cycleHour = 5, p_fhr = 4, p_playing = True, p_speedMs = 300,
       timerRef = Some 3, intervals = [(3, 300, 5)], next_handle = 4, has_cleanup = True,
       mounted = True\<rparr>) = []
   \<and> length (intervals (deps_changed \<lparr>p_cycleHour = 5, p_fhr = 4, p_playing = True,
       p_speedMs = 300, timerRef = Some 3, intervals = [(3, 300, 5)], next_handle = 4,
       has_cleanup = True, mounted = True\<rparr>)) = 1"
  using at_most_one_timer [of "[TogglePlay, SetSpeedMs 300, SetCycleHour 5, Tick 3, Tick 1]" 12]
  unfolding run_example by simp

end
